theory Spec2Isabelle
  imports Complex_Main "HOL-Library.Monad_Syntax"
begin

section \<open>The number type\<close>

text \<open>
  \<^verbatim>\<open>tanh_sinh_detail<Real, Policy>\<close> is a template over the number type. The model takes
  \<^verbatim>\<open>Real\<close> to be the real numbers: arithmetic is exact, nothing is rounded and nothing
  overflows. For such a type \<^verbatim>\<open>initializer_selector\<close> is 0 (it is 1 only for a radix-2 type
  with fewer than 30 digits and \<^verbatim>\<open>max_exponent\<close> at most 128), so the constructor runs
  \<^verbatim>\<open>init(mpl::int_<0>)\<close>. The tables of constants of \<^verbatim>\<open>init(mpl::int_<1>)\<close> belong to
  single precision and are not part of the model.

  The one place where a value that is not a number enters the computation is the
  integrand: a caller's \<^verbatim>\<open>f\<close> may return an infinity or a NaN, and \<^verbatim>\<open>integrate\<close> tests
  its running estimate with \<^verbatim>\<open>isfinite\<close>. Values computed from results of \<^verbatim>\<open>f\<close> are
  therefore of the type \<open>xreal\<close>: a real number, an infinity or NaN, with the arithmetic
  of IEEE 754 on the special values. Abscissas, weights, step sizes, the tolerance and the
  thresholds are real numbers.
\<close>

datatype xreal = Finite real | PInf | NInf | NaN

instantiation xreal :: "{plus, uminus, minus, times, abs, ord}"
begin

fun plus_xreal :: "xreal \<Rightarrow> xreal \<Rightarrow> xreal" where
  "plus_xreal (Finite a) (Finite b) = Finite (a + b)"
| "plus_xreal NaN _ = NaN"
| "plus_xreal _ NaN = NaN"
| "plus_xreal PInf NInf = NaN"
| "plus_xreal NInf PInf = NaN"
| "plus_xreal PInf _ = PInf"
| "plus_xreal _ PInf = PInf"
| "plus_xreal NInf _ = NInf"
| "plus_xreal _ NInf = NInf"

fun uminus_xreal :: "xreal \<Rightarrow> xreal" where
  "uminus_xreal (Finite a) = Finite (- a)"
| "uminus_xreal PInf = NInf"
| "uminus_xreal NInf = PInf"
| "uminus_xreal NaN = NaN"

definition minus_xreal :: "xreal \<Rightarrow> xreal \<Rightarrow> xreal" where
  "minus_xreal a b = a + (- b)"

fun times_xreal :: "xreal \<Rightarrow> xreal \<Rightarrow> xreal" where
  "times_xreal (Finite a) (Finite b) = Finite (a * b)"
| "times_xreal NaN _ = NaN"
| "times_xreal _ NaN = NaN"
| "times_xreal PInf (Finite b) = (if b = 0 then NaN else if 0 < b then PInf else NInf)"
| "times_xreal NInf (Finite b) = (if b = 0 then NaN else if 0 < b then NInf else PInf)"
| "times_xreal (Finite a) PInf = (if a = 0 then NaN else if 0 < a then PInf else NInf)"
| "times_xreal (Finite a) NInf = (if a = 0 then NaN else if 0 < a then NInf else PInf)"
| "times_xreal PInf PInf = PInf"
| "times_xreal PInf NInf = NInf"
| "times_xreal NInf PInf = NInf"
| "times_xreal NInf NInf = PInf"

fun abs_xreal :: "xreal \<Rightarrow> xreal" where
  "abs_xreal (Finite a) = Finite \<bar>a\<bar>"
| "abs_xreal PInf = PInf"
| "abs_xreal NInf = PInf"
| "abs_xreal NaN = NaN"

fun less_eq_xreal :: "xreal \<Rightarrow> xreal \<Rightarrow> bool" where
  "less_eq_xreal (Finite a) (Finite b) = (a \<le> b)"
| "less_eq_xreal NaN _ = False"
| "less_eq_xreal _ NaN = False"
| "less_eq_xreal NInf _ = True"
| "less_eq_xreal _ PInf = True"
| "less_eq_xreal _ _ = False"

definition less_xreal :: "xreal \<Rightarrow> xreal \<Rightarrow> bool" where
  "less_xreal a b = (a \<le> b \<and> \<not> b \<le> a)"

instance ..

end

fun isfinite :: "xreal \<Rightarrow> bool" where
  "isfinite (Finite a) = True"
| "isfinite _ = False"

text \<open>\<^verbatim>\<open>signbit\<close> of a real number: there is no negative zero among the reals.\<close>

definition signbit :: "real \<Rightarrow> bool" where
  "signbit x = (x < 0)"

definition half_pi :: real where
  "half_pi = pi / 2"

definition half :: real where
  "half = 1 / 2"

text \<open>\<^verbatim>\<open>ldexp(x, e)\<close> is \<open>x * 2\<^sup>e\<close>.\<close>

definition ldexp :: "real \<Rightarrow> int \<Rightarrow> real" where
  "ldexp x e = (if 0 \<le> e then x * 2 ^ nat e else x / 2 ^ nat (- e))"

section \<open>What can go wrong below the level of the algorithm\<close>

text \<open>
  A call that does not come back with a value is \<open>None\<close>: a read or a write outside
  a \<^verbatim>\<open>std::vector\<close> (undefined behaviour in C++), a \<^verbatim>\<open>BOOST_ASSERT\<close> that fails, or a
  loop that never ends. An evaluation error raised through the policy is not one of
  these: it is a result of \<^verbatim>\<open>integrate\<close> and has its own constructor below.
\<close>

definition vec_at :: "'a list \<Rightarrow> nat \<Rightarrow> 'a option" where
  "vec_at xs i = (if i < length xs then Some (xs ! i) else None)"

definition vec_set :: "'a list \<Rightarrow> nat \<Rightarrow> 'a \<Rightarrow> 'a list option" where
  "vec_set xs i v = (if i < length xs then Some (xs[i := v]) else None)"

text \<open>\<^verbatim>\<open>rows[row].push_back(v)\<close>\<close>

definition push_back_row :: "'a list list \<Rightarrow> nat \<Rightarrow> 'a \<Rightarrow> 'a list list option" where
  "push_back_row rows row v =
     (if row < length rows then Some (rows[row := rows ! row @ [v]]) else None)"

text \<open>\<^verbatim>\<open>rows[row].swap(temp)\<close>: the new \<^verbatim>\<open>temp\<close> and the new \<^verbatim>\<open>rows\<close>.\<close>

definition swap_row :: "'a list list \<Rightarrow> nat \<Rightarrow> 'a list \<Rightarrow> ('a list \<times> 'a list list) option" where
  "swap_row rows row temp =
     (if row < length rows then Some (rows ! row, rows[row := temp]) else None)"

definition boost_assert :: "bool \<Rightarrow> unit option" where
  "boost_assert b = (if b then Some () else None)"

text \<open>
  \<^verbatim>\<open>std::size_t\<close> is taken to be 64 bits wide. The three operations below are the ones
  that \<^verbatim>\<open>integrate\<close> applies to the positions it keeps and that can leave the range;
  they wrap around. Counters that run over a vector (\<^verbatim>\<open>i\<close>, \<^verbatim>\<open>j\<close>, \<^verbatim>\<open>k\<close>, \<^verbatim>\<open>row\<close>) stay
  below its size and are natural numbers.
\<close>

definition SIZE_MAX :: nat where
  "SIZE_MAX = 2 ^ 64 - 1"

definition size_dec :: "nat \<Rightarrow> nat" where
  "size_dec p = (if p = 0 then SIZE_MAX else p - 1)"

definition size_inc :: "nat \<Rightarrow> nat" where
  "size_inc p = (if p = SIZE_MAX then 0 else p + 1)"

definition size_double :: "nat \<Rightarrow> nat" where
  "size_double p = (p * 2) mod 2 ^ 64"

section \<open>Transform mathematics\<close>

definition abscissa_at_t :: "real \<Rightarrow> real" where
  "abscissa_at_t t = tanh (half_pi * sinh t)"

definition weight_at_t :: "real \<Rightarrow> real" where
  "weight_at_t t = (let cs = cosh (half_pi * sinh t) in half_pi * cosh t / (cs * cs))"

definition abscissa_complement_at_t :: "real \<Rightarrow> real" where
  "abscissa_complement_at_t t = (let u2 = half_pi * sinh t in 1 / (exp u2 * cosh u2))"

definition t_from_abscissa_complement :: "real \<Rightarrow> real" where
  "t_from_abscissa_complement x =
     (let l = ln (sqrt ((2 - x) / x))
      in ln ((sqrt (4 * l * l + pi * pi) + 2 * l) / pi))"

section \<open>The table of abscissas and weights\<close>

record tanh_sinh_detail =
  m_abscissas :: "real list list"
  m_weights :: "real list list"
  m_first_complements :: "nat list"
  m_max_refinements :: nat
  m_inital_row_length :: nat
  m_committed_refinements :: nat
  m_tol :: real
  m_t_max :: real
  m_t_crossover :: real

subsection \<open>\<^verbatim>\<open>extend_refinements\<close>\<close>

text \<open>
  The loop \<^verbatim>\<open>for (Real pos = h; pos < m_t_max; pos += 2 * h)\<close> does not end when
  \<open>h \<le> 0\<close> and \<open>pos < m_t_max\<close>; that is the \<open>None\<close> of the second line.
\<close>

function extend_abscissas ::
  "real \<Rightarrow> real \<Rightarrow> real \<Rightarrow> real \<Rightarrow> nat \<Rightarrow> real list list \<times> nat \<Rightarrow> (real list list \<times> nat) option"
where
  "extend_abscissas pos h t_max t_crossover row (abscissas, first_complement) =
     (if pos < t_max then
        (if h \<le> 0 then None
         else
           (case push_back_row abscissas row
                   (if pos < t_crossover then abscissa_at_t pos
                    else - abscissa_complement_at_t pos) of
              None \<Rightarrow> None
            | Some abscissas' \<Rightarrow>
                extend_abscissas (pos + 2 * h) h t_max t_crossover row
                  (abscissas',
                   if pos < t_crossover then first_complement + 1 else first_complement)))
      else Some (abscissas, first_complement))"
  by pat_completeness auto
termination
proof (relation "measure (\<lambda>(pos, h, t_max, _). nat \<lceil>(t_max - pos) / (2 * h)\<rceil>)", goal_cases)
  case 1
  show ?case by simp
next
  case (2 pos h t_max t_crossover row abscissas first_complement x2)
  then have h: "0 < h" and lt: "pos < t_max" by simp_all
  have eq: "(t_max - (pos + 2 * h)) / (2 * h) = (t_max - pos) / (2 * h) - 1"
    using h by (simp add: field_simps)
  have "0 < (t_max - pos) / (2 * h)" using h lt by simp
  then have "0 < \<lceil>(t_max - pos) / (2 * h)\<rceil>" by linarith
  then show ?case unfolding in_measure prod.case eq by simp
qed

function extend_weights ::
  "real \<Rightarrow> real \<Rightarrow> real \<Rightarrow> nat \<Rightarrow> real list list \<Rightarrow> real list list option"
where
  "extend_weights pos h t_max row weights =
     (if pos < t_max then
        (if h \<le> 0 then None
         else
           (case push_back_row weights row (weight_at_t pos) of
              None \<Rightarrow> None
            | Some weights' \<Rightarrow> extend_weights (pos + 2 * h) h t_max row weights'))
      else Some weights)"
  by pat_completeness auto
termination
proof (relation "measure (\<lambda>(pos, h, t_max, _). nat \<lceil>(t_max - pos) / (2 * h)\<rceil>)", goal_cases)
  case 1
  show ?case by simp
next
  case (2 pos h t_max row weights x2)
  then have h: "0 < h" and lt: "pos < t_max" by simp_all
  have eq: "(t_max - (pos + 2 * h)) / (2 * h) = (t_max - pos) / (2 * h) - 1"
    using h by (simp add: field_simps)
  have "0 < (t_max - pos) / (2 * h)" using h lt by simp
  then have "0 < \<lceil>(t_max - pos) / (2 * h)\<rceil>" by linarith
  then show ?case unfolding in_measure prod.case eq by simp
qed

definition extend_refinements :: "tanh_sinh_detail \<Rightarrow> tanh_sinh_detail option" where
  "extend_refinements s =
     (let committed = m_committed_refinements s + 1;
          row = committed;
          h = ldexp 1 (- int row);
          first_complement = 0
      in do {
        (abscissas, first_complement) \<leftarrow>
          extend_abscissas h h (m_t_max s) (m_t_crossover s) row (m_abscissas s, first_complement);
        first_complements \<leftarrow> vec_set (m_first_complements s) row first_complement;
        weights \<leftarrow> extend_weights h h (m_t_max s) row (m_weights s);
        Some (s\<lparr>m_committed_refinements := committed,
                m_abscissas := abscissas,
                m_first_complements := first_complements,
                m_weights := weights\<rparr>)
      })"

subsection \<open>The row accessors\<close>

text \<open>
  Each accessor extends the table by one level when the level asked for is not yet
  committed, asserts that it then is, and returns the row. \<^verbatim>\<open>integrate\<close> asks for the
  abscissa row, the weight row and the first complement index of one level in turn; only
  the first of the three calls can extend the table, so the rows that the model returns
  by value are the rows that the references of the source denote.
\<close>

definition get_abscissa_row :: "nat \<Rightarrow> tanh_sinh_detail \<Rightarrow> (real list \<times> tanh_sinh_detail) option" where
  "get_abscissa_row n s = do {
     s \<leftarrow> (if m_committed_refinements s < n then extend_refinements s else Some s);
     _ \<leftarrow> boost_assert (m_committed_refinements s \<ge> n);
     r \<leftarrow> vec_at (m_abscissas s) n;
     Some (r, s)
   }"

definition get_weight_row :: "nat \<Rightarrow> tanh_sinh_detail \<Rightarrow> (real list \<times> tanh_sinh_detail) option" where
  "get_weight_row n s = do {
     s \<leftarrow> (if m_committed_refinements s < n then extend_refinements s else Some s);
     _ \<leftarrow> boost_assert (m_committed_refinements s \<ge> n);
     r \<leftarrow> vec_at (m_weights s) n;
     Some (r, s)
   }"

definition get_first_complement_index :: "nat \<Rightarrow> tanh_sinh_detail \<Rightarrow> (nat \<times> tanh_sinh_detail) option" where
  "get_first_complement_index n s = do {
     s \<leftarrow> (if m_committed_refinements s < n then extend_refinements s else Some s);
     _ \<leftarrow> boost_assert (m_committed_refinements s \<ge> n);
     r \<leftarrow> vec_at (m_first_complements s) n;
     Some (r, s)
   }"

subsection \<open>The constructor with \<^verbatim>\<open>init(mpl::int_<0>)\<close>\<close>

text \<open>
  One pass of the loop that fills the first row. \<^verbatim>\<open>first_complement\<close> is a
  \<^verbatim>\<open>std::size_t\<close>, and the test \<^verbatim>\<open>first_complement < 0\<close> is written as in the source.
\<close>

definition first_row_step :: "real \<Rightarrow> real \<Rightarrow> nat \<Rightarrow> real list \<times> nat \<Rightarrow> real list \<times> nat" where
  "first_row_step h t_crossover i = (\<lambda>(temp, first_complement).
     (let t = h * real i;
          first_complement = (if first_complement < 0 \<and> t < t_crossover then i else first_complement)
      in (temp[i := (if t < t_crossover then abscissa_at_t t else - abscissa_complement_at_t t)],
          first_complement)))"

text \<open>The two loops over \<^verbatim>\<open>pos\<close> of the constructor push onto \<^verbatim>\<open>temp\<close>.\<close>

function init_abscissas ::
  "real \<Rightarrow> real \<Rightarrow> real \<Rightarrow> real \<Rightarrow> real list \<times> nat \<Rightarrow> (real list \<times> nat) option"
where
  "init_abscissas pos h t_max t_crossover (temp, first_complement) =
     (if pos < t_max then
        (if h \<le> 0 then None
         else init_abscissas (pos + 2 * h) h t_max t_crossover
                (temp @ [if pos < t_crossover then abscissa_at_t pos
                         else - abscissa_complement_at_t pos],
                 if pos < t_crossover then first_complement + 1 else first_complement))
      else Some (temp, first_complement))"
  by pat_completeness auto
termination
proof (relation "measure (\<lambda>(pos, h, t_max, _). nat \<lceil>(t_max - pos) / (2 * h)\<rceil>)", goal_cases)
  case 1
  show ?case by simp
next
  case (2 pos h t_max t_crossover temp first_complement)
  then have h: "0 < h" and lt: "pos < t_max" by simp_all
  have eq: "(t_max - (pos + 2 * h)) / (2 * h) = (t_max - pos) / (2 * h) - 1"
    using h by (simp add: field_simps)
  have "0 < (t_max - pos) / (2 * h)" using h lt by simp
  then have "0 < \<lceil>(t_max - pos) / (2 * h)\<rceil>" by linarith
  then show ?case unfolding in_measure prod.case eq by simp
qed

function init_weights :: "real \<Rightarrow> real \<Rightarrow> real \<Rightarrow> real list \<Rightarrow> real list option" where
  "init_weights pos h t_max temp =
     (if pos < t_max then
        (if h \<le> 0 then None
         else init_weights (pos + 2 * h) h t_max (temp @ [weight_at_t pos]))
      else Some temp)"
  by pat_completeness auto
termination
proof (relation "measure (\<lambda>(pos, h, t_max, _). nat \<lceil>(t_max - pos) / (2 * h)\<rceil>)", goal_cases)
  case 1
  show ?case by simp
next
  case (2 pos h t_max temp)
  then have h: "0 < h" and lt: "pos < t_max" by simp_all
  have eq: "(t_max - (pos + 2 * h)) / (2 * h) = (t_max - pos) / (2 * h) - 1"
    using h by (simp add: field_simps)
  have "0 < (t_max - pos) / (2 * h)" using h lt by simp
  then have "0 < \<lceil>(t_max - pos) / (2 * h)\<rceil>" by linarith
  then show ?case unfolding in_measure prod.case eq by simp
qed

text \<open>
  One pass of \<^verbatim>\<open>for (row = 1; row <= m_committed_refinements; ++row)\<close>: the new \<^verbatim>\<open>h\<close>,
  the new \<^verbatim>\<open>temp\<close> and the new table.
\<close>

definition init_row ::
  "nat \<Rightarrow> real \<Rightarrow> real list \<Rightarrow> tanh_sinh_detail \<Rightarrow> (real \<times> real list \<times> tanh_sinh_detail) option"
where
  "init_row row h temp s =
     (let h = h / 2;
          first_complement = 0
      in do {
        (temp, first_complement) \<leftarrow>
          init_abscissas h h (m_t_max s) (m_t_crossover s) (temp, first_complement);
        (temp, abscissas) \<leftarrow> swap_row (m_abscissas s) row temp;
        first_complements \<leftarrow> vec_set (m_first_complements s) row first_complement;
        temp \<leftarrow> init_weights h h (m_t_max s) temp;
        (temp, weights) \<leftarrow> swap_row (m_weights s) row temp;
        Some (h, temp, s\<lparr>m_abscissas := abscissas,
                          m_first_complements := first_complements,
                          m_weights := weights\<rparr>)
      })"

text \<open>
  The loop over the rows, for \<^verbatim>\<open>row\<close> = \<open>row\<close>, ..., \<open>row + n - 1\<close>; the constructor runs it
  from row 1 for \<^verbatim>\<open>m_committed_refinements\<close> rows.
\<close>

fun init_rows ::
  "nat \<Rightarrow> nat \<Rightarrow> real \<Rightarrow> real list \<Rightarrow> tanh_sinh_detail \<Rightarrow> tanh_sinh_detail option"
where
  "init_rows 0 row h temp s = Some s"
| "init_rows (Suc n) row h temp s =
     (case init_row row h temp s of
        None \<Rightarrow> None
      | Some (h, temp, s) \<Rightarrow> init_rows n (row + 1) h temp s)"

definition init0 :: "real \<Rightarrow> nat \<Rightarrow> nat \<Rightarrow> tanh_sinh_detail option" where
  "init0 tol max_refinements initial_commit =
     (let inital_row_length = 7;
          first_complement = 0;
          t_max = real inital_row_length;
          t_crossover = t_from_abscissa_complement (1 / 2);
          abscissas = replicate (max_refinements + 1) [];
          weights = replicate (max_refinements + 1) [];
          first_complements = replicate (max_refinements + 1) 0;
          h = t_max / real inital_row_length;
          temp = replicate (inital_row_length + 1) 0;
          (temp, first_complement) =
             fold (first_row_step h t_crossover) [0..<inital_row_length] (temp, first_complement);
          temp = temp[inital_row_length := abscissa_complement_at_t t_max]
      in do {
        (temp, abscissas) \<leftarrow> swap_row abscissas 0 temp;
        first_complements \<leftarrow> vec_set first_complements 0 first_complement;
        let temp = replicate (inital_row_length + 1) 0;
        let temp = fold (\<lambda>i temp. temp[i := weight_at_t (h * real i)]) [0..<inital_row_length] temp;
        let temp = temp[inital_row_length := weight_at_t t_max];
        (temp, weights) \<leftarrow> swap_row weights 0 temp;
        init_rows initial_commit 1 h temp
          \<lparr>m_abscissas = abscissas,
           m_weights = weights,
           m_first_complements = first_complements,
           m_max_refinements = max_refinements,
           m_inital_row_length = inital_row_length,
           m_committed_refinements = initial_commit,
           m_tol = tol,
           m_t_max = t_max,
           m_t_crossover = t_crossover\<rparr>
      })"

section \<open>\<^verbatim>\<open>integrate\<close>\<close>

text \<open>
  The integrand is a function of the abscissa and of its signed complement. Every call
  of it is recorded, in the order of the calls, with the side of the interval it is
  made for: the centre \<open>f(0, 1)\<close>, the right half \<open>f(x, -xc)\<close>, or the left half
  \<open>f(-x, xc)\<close>.
\<close>

type_synonym integrand = "real \<Rightarrow> real \<Rightarrow> xreal"

datatype side = Centre | Right | Left

type_synonym call = "side \<times> real \<times> real"

definition call_f :: "integrand \<Rightarrow> side \<Rightarrow> real \<Rightarrow> real \<Rightarrow> call list \<Rightarrow> xreal \<times> call list" where
  "call_f f sd x xc calls = (f x xc, calls @ [(sd, x, xc)])"

text \<open>\<^verbatim>\<open>while (p && fabs(row[p]) < min_complement) --p;\<close>\<close>

fun walk_down :: "real list \<Rightarrow> real \<Rightarrow> nat \<Rightarrow> nat option" where
  "walk_down row min_complement 0 = Some 0"
| "walk_down row min_complement (Suc p) =
     (case vec_at row (Suc p) of
        None \<Rightarrow> None
      | Some v \<Rightarrow>
          if \<bar>v\<bar> < min_complement then walk_down row min_complement p else Some (Suc p))"

text \<open>The body of the loop over row 0, for one \<^verbatim>\<open>i\<close>.\<close>

definition level0_point ::
  "integrand \<Rightarrow> tanh_sinh_detail \<Rightarrow> nat \<Rightarrow> nat \<Rightarrow> nat \<Rightarrow> xreal \<times> xreal \<times> call list
     \<Rightarrow> (xreal \<times> xreal \<times> call list) option"
where
  "level0_point f s max_left_position max_right_position i = (\<lambda>(I0, L1_I0, calls). do {
     abscissas0 \<leftarrow> vec_at (m_abscissas s) 0;
     x \<leftarrow> vec_at abscissas0 i;
     let xc = x;
     weights0 \<leftarrow> vec_at (m_weights s) 0;
     w \<leftarrow> vec_at weights0 i;
     let (x, xc) = (if signbit x then (1 + xc, xc) else (x, x - 1));
     let (yp, calls) = (if i \<le> max_right_position then call_f f Right x (- xc) calls
                        else (Finite 0, calls));
     let (ym, calls) = (if i \<le> max_left_position then call_f f Left (- x) xc calls
                        else (Finite 0, calls));
     Some (I0 + (yp + ym) * Finite w, L1_I0 + (\<bar>yp\<bar> + \<bar>ym\<bar>) * Finite w, calls)
   })"

function level0_loop ::
  "integrand \<Rightarrow> tanh_sinh_detail \<Rightarrow> nat \<Rightarrow> nat \<Rightarrow> nat \<Rightarrow> nat \<Rightarrow> xreal \<times> xreal \<times> call list
     \<Rightarrow> (xreal \<times> xreal \<times> call list) option"
where
  "level0_loop f s size0 max_left_position max_right_position i acc =
     (if i < size0 then
        (if i > max_right_position \<and> i > max_left_position then Some acc
         else
           (case level0_point f s max_left_position max_right_position i acc of
              None \<Rightarrow> None
            | Some acc \<Rightarrow> level0_loop f s size0 max_left_position max_right_position (i + 1) acc))
      else Some acc)"
  by pat_completeness auto
termination
  by (relation "measure (\<lambda>(f, s, size0, l, r, i, acc). size0 - i)") auto

text \<open>The body of the loop over a row \<open>k \<ge> 1\<close>, for one \<^verbatim>\<open>j\<close>.\<close>

definition level_point ::
  "integrand \<Rightarrow> real list \<Rightarrow> real list \<Rightarrow> nat \<Rightarrow> nat \<Rightarrow> nat \<Rightarrow> nat \<Rightarrow> xreal \<times> xreal \<times> call list
     \<Rightarrow> (xreal \<times> xreal \<times> call list) option"
where
  "level_point f abscissa_row weight_row first_complement_index max_left_index max_right_index j =
     (\<lambda>(sum, absum, calls). do {
        x \<leftarrow> vec_at abscissa_row j;
        let xc = x;
        w \<leftarrow> vec_at weight_row j;
        (x, xc) \<leftarrow>
          (if j \<ge> first_complement_index
           then do { _ \<leftarrow> boost_assert (x < 0); Some (1 + xc, xc) }
           else do { _ \<leftarrow> boost_assert (x \<ge> 0); Some (x, x - 1) });
        let (yp, calls) = (if j > max_right_index then (Finite 0, calls)
                           else call_f f Right x (- xc) calls);
        let (ym, calls) = (if j > max_left_index then (Finite 0, calls)
                           else call_f f Left (- x) xc calls);
        let term = (yp + ym) * Finite w;
        let abterm = (\<bar>yp\<bar> + \<bar>ym\<bar>) * Finite w;
        Some (sum + term, absum + abterm, calls)
      })"

function level_loop ::
  "integrand \<Rightarrow> real list \<Rightarrow> real list \<Rightarrow> nat \<Rightarrow> nat \<Rightarrow> nat \<Rightarrow> nat \<Rightarrow> xreal \<times> xreal \<times> call list
     \<Rightarrow> (xreal \<times> xreal \<times> call list) option"
where
  "level_loop f abscissa_row weight_row first_complement_index max_left_index max_right_index j acc =
     (if j < length weight_row then
        (if j > max_left_index \<and> j > max_right_index then Some acc
         else
           (case level_point f abscissa_row weight_row first_complement_index
                   max_left_index max_right_index j acc of
              None \<Rightarrow> None
            | Some acc \<Rightarrow>
                level_loop f abscissa_row weight_row first_complement_index
                  max_left_index max_right_index (j + 1) acc))
      else Some acc)"
  by pat_completeness auto
termination
  by (relation "measure (\<lambda>(f, a, w, c, l, r, j, acc). length w - j)") auto

text \<open>
  The variables of one call that live across the levels. \<open>ss_checks\<close> records, for
  every pass of the \<^verbatim>\<open>while\<close> loop, the values the two tests at its end see: the
  counter \<^verbatim>\<open>k\<close> after its increment, \<^verbatim>\<open>I1\<close>, \<^verbatim>\<open>err\<close> and \<^verbatim>\<open>L1_I1\<close>.
\<close>

type_synonym check = "nat \<times> xreal \<times> xreal \<times> xreal"

record session =
  ss_table :: tanh_sinh_detail
  ss_k :: nat
  ss_I1 :: xreal
  ss_L1_I1 :: xreal
  ss_h :: real
  ss_err :: xreal
  ss_max_left_position :: nat
  ss_max_right_position :: nat
  ss_calls :: "call list"
  ss_checks :: "check list"

text \<open>
  The position and the index of one side at the start of a row: the index is one less
  than the old position, the position doubles, and both move up by one when the row's
  next abscissa is still further from the endpoint than the threshold.
\<close>

definition update_position :: "real list \<Rightarrow> real \<Rightarrow> nat \<Rightarrow> nat \<times> nat" where
  "update_position abscissa_row min_complement max_position =
     (let max_index = size_dec max_position;
          max_position = size_double max_position
      in if length abscissa_row > size_inc max_index
            \<and> \<bar>abscissa_row ! (size_inc max_index)\<bar> > min_complement
         then (size_inc max_position, size_inc max_index)
         else (max_position, max_index))"

text \<open>One pass of the \<^verbatim>\<open>while\<close> loop, up to and including \<^verbatim>\<open>err = abs(I0 - I1)\<close>.\<close>

definition refine_step :: "integrand \<Rightarrow> real \<Rightarrow> real \<Rightarrow> session \<Rightarrow> session option" where
  "refine_step f left_min_complement right_min_complement ss =
     (let k = ss_k ss;
          I0 = ss_I1 ss;
          L1_I0 = ss_L1_I1 ss;
          I1 = Finite half * I0;
          L1_I1 = Finite half * L1_I0;
          h = ss_h ss * half;
          sum = Finite 0;
          absum = Finite 0
      in do {
        (abscissa_row, s) \<leftarrow> get_abscissa_row k (ss_table ss);
        (weight_row, s) \<leftarrow> get_weight_row k s;
        (first_complement_index, s) \<leftarrow> get_first_complement_index k s;
        let (max_left_position, max_left_index) =
              update_position abscissa_row left_min_complement (ss_max_left_position ss);
        let (max_right_position, max_right_index) =
              update_position abscissa_row right_min_complement (ss_max_right_position ss);
        (sum, absum, calls) \<leftarrow>
          level_loop f abscissa_row weight_row first_complement_index
            max_left_index max_right_index 0 (sum, absum, ss_calls ss);
        let I1 = I1 + sum * Finite h;
        let L1_I1 = L1_I1 + absum * Finite h;
        let k = k + 1;
        let err = \<bar>I0 - I1\<bar>;
        Some \<lparr>ss_table = s, ss_k = k, ss_I1 = I1, ss_L1_I1 = L1_I1, ss_h = h, ss_err = err,
              ss_max_left_position = max_left_position,
              ss_max_right_position = max_right_position,
              ss_calls = calls,
              ss_checks = ss_checks ss @ [(k, I1, err, L1_I1)]\<rparr>
      })"

text \<open>
  What a pass of the loop leaves as it was. These facts are needed at once: the
  \<^verbatim>\<open>while\<close> loop ends because \<^verbatim>\<open>k\<close> grows while \<^verbatim>\<open>m_weights.size()\<close> and
  \<^verbatim>\<open>m_max_refinements\<close> stay.
\<close>

declare extend_abscissas.simps [simp del] extend_weights.simps [simp del]
  init_abscissas.simps [simp del] init_weights.simps [simp del]
  level0_loop.simps [simp del] level_loop.simps [simp del]

lemma push_back_row_length:
  "push_back_row rows row v = Some rows' \<Longrightarrow> length rows' = length rows"
  by (auto simp: push_back_row_def split: if_splits)

lemma extend_abscissas_length:
  "extend_abscissas pos h t_max t_crossover row acc = Some acc'
   \<Longrightarrow> length (fst acc') = length (fst acc)"
proof (induction pos h t_max t_crossover row acc arbitrary: acc' rule: extend_abscissas.induct)
  case (1 pos h t_max t_crossover row abscissas first_complement)
  show ?case
  proof (cases "pos < t_max")
    case True
    with "1.prems" have h: "\<not> h \<le> 0"
      by (subst (asm) extend_abscissas.simps) (auto split: if_splits)
    from "1.prems" True h obtain a2 where
      pb: "push_back_row abscissas row
            (if pos < t_crossover then abscissa_at_t pos else - abscissa_complement_at_t pos) = Some a2"
      and rec: "extend_abscissas (pos + 2 * h) h t_max t_crossover row
          (a2, if pos < t_crossover then first_complement + 1 else first_complement) = Some acc'"
      by (subst (asm) extend_abscissas.simps) (simp split: option.splits)
    have "length (fst acc') = length a2"
      using "1.IH" [OF True h pb rec] by simp
    then show ?thesis using push_back_row_length [OF pb] by simp
  next
    case False
    with "1.prems" show ?thesis
      by (subst (asm) extend_abscissas.simps) simp
  qed
qed

lemma extend_weights_length:
  "extend_weights pos h t_max row weights = Some weights'
   \<Longrightarrow> length weights' = length weights"
proof (induction pos h t_max row weights rule: extend_weights.induct)
  case (1 pos h t_max row weights)
  show ?case
  proof (cases "pos < t_max")
    case True
    with "1.prems" have h: "\<not> h \<le> 0"
      by (subst (asm) extend_weights.simps) (auto split: if_splits)
    from "1.prems" True h obtain w2 where
      pb: "push_back_row weights row (weight_at_t pos) = Some w2"
      and rec: "extend_weights (pos + 2 * h) h t_max row w2 = Some weights'"
      by (subst (asm) extend_weights.simps) (simp split: option.splits)
    have "length weights' = length w2"
      using "1.IH" [OF True h pb rec] by simp
    then show ?thesis using push_back_row_length [OF pb] by simp
  next
    case False
    with "1.prems" show ?thesis
      by (subst (asm) extend_weights.simps) simp
  qed
qed

lemma extend_refinements_SomeE:
  assumes "extend_refinements s = Some s'"
  obtains abscissas fc weights where
    "extend_abscissas (ldexp 1 (- int (m_committed_refinements s + 1)))
        (ldexp 1 (- int (m_committed_refinements s + 1))) (m_t_max s) (m_t_crossover s)
        (m_committed_refinements s + 1) (m_abscissas s, 0) = Some (abscissas, fc)"
    "m_committed_refinements s + 1 < length (m_first_complements s)"
    "extend_weights (ldexp 1 (- int (m_committed_refinements s + 1)))
        (ldexp 1 (- int (m_committed_refinements s + 1))) (m_t_max s)
        (m_committed_refinements s + 1) (m_weights s) = Some weights"
    "s' = s\<lparr>m_committed_refinements := m_committed_refinements s + 1,
             m_abscissas := abscissas,
             m_first_complements := (m_first_complements s)[m_committed_refinements s + 1 := fc],
             m_weights := weights\<rparr>"
  using assms unfolding extend_refinements_def Let_def vec_set_def
  by (auto split: Option.bind_splits if_splits simp del: of_nat_Suc of_nat_add)

lemma extend_refinements_frame:
  assumes "extend_refinements s = Some s'"
  shows "length (m_weights s') = length (m_weights s)"
    and "length (m_abscissas s') = length (m_abscissas s)"
    and "length (m_first_complements s') = length (m_first_complements s)"
    and "m_max_refinements s' = m_max_refinements s"
    and "m_committed_refinements s' = m_committed_refinements s + 1"
    and "m_t_max s' = m_t_max s"
    and "m_t_crossover s' = m_t_crossover s"
    and "m_tol s' = m_tol s"
    and "m_inital_row_length s' = m_inital_row_length s"
proof -
  from assms obtain abscissas fc weights where
    a: "extend_abscissas (ldexp 1 (- int (m_committed_refinements s + 1)))
        (ldexp 1 (- int (m_committed_refinements s + 1))) (m_t_max s) (m_t_crossover s)
        (m_committed_refinements s + 1) (m_abscissas s, 0) = Some (abscissas, fc)"
    and w: "extend_weights (ldexp 1 (- int (m_committed_refinements s + 1)))
        (ldexp 1 (- int (m_committed_refinements s + 1))) (m_t_max s)
        (m_committed_refinements s + 1) (m_weights s) = Some weights"
    and s': "s' = s\<lparr>m_committed_refinements := m_committed_refinements s + 1,
             m_abscissas := abscissas,
             m_first_complements := (m_first_complements s)[m_committed_refinements s + 1 := fc],
             m_weights := weights\<rparr>"
    by (rule extend_refinements_SomeE)
  show "length (m_weights s') = length (m_weights s)"
    using extend_weights_length [OF w] s' by simp
  show "length (m_abscissas s') = length (m_abscissas s)"
    using extend_abscissas_length [OF a] s' by simp
  show "length (m_first_complements s') = length (m_first_complements s)"
    and "m_max_refinements s' = m_max_refinements s"
    and "m_committed_refinements s' = m_committed_refinements s + 1"
    and "m_t_max s' = m_t_max s"
    and "m_t_crossover s' = m_t_crossover s"
    and "m_tol s' = m_tol s"
    and "m_inital_row_length s' = m_inital_row_length s"
    using s' by simp_all
qed


lemma get_abscissa_row_SomeE:
  assumes "get_abscissa_row n s = Some (r, s')"
  obtains "m_committed_refinements s < n" "extend_refinements s = Some s'"
          "n \<le> m_committed_refinements s'" "n < length (m_abscissas s')" "r = m_abscissas s' ! n"
        | "n \<le> m_committed_refinements s" "s' = s"
          "n < length (m_abscissas s)" "r = m_abscissas s ! n"
  using assms unfolding get_abscissa_row_def boost_assert_def vec_at_def
  by (auto split: Option.bind_splits if_splits)

lemma get_weight_row_SomeE:
  assumes "get_weight_row n s = Some (r, s')"
  obtains "m_committed_refinements s < n" "extend_refinements s = Some s'"
          "n \<le> m_committed_refinements s'" "n < length (m_weights s')" "r = m_weights s' ! n"
        | "n \<le> m_committed_refinements s" "s' = s"
          "n < length (m_weights s)" "r = m_weights s ! n"
  using assms unfolding get_weight_row_def boost_assert_def vec_at_def
  by (auto split: Option.bind_splits if_splits)

lemma get_first_complement_index_SomeE:
  assumes "get_first_complement_index n s = Some (r, s')"
  obtains "m_committed_refinements s < n" "extend_refinements s = Some s'"
          "n \<le> m_committed_refinements s'" "n < length (m_first_complements s')"
          "r = m_first_complements s' ! n"
        | "n \<le> m_committed_refinements s" "s' = s"
          "n < length (m_first_complements s)" "r = m_first_complements s ! n"
  using assms unfolding get_first_complement_index_def boost_assert_def vec_at_def
  by (auto split: Option.bind_splits if_splits)

lemma refine_step_SomeE:
  assumes "refine_step f lmc rmc ss = Some ss'"
  obtains abscissa_row s1 weight_row s2 first_complement_index s3 sum absum calls where
    "get_abscissa_row (ss_k ss) (ss_table ss) = Some (abscissa_row, s1)"
    "get_weight_row (ss_k ss) s1 = Some (weight_row, s2)"
    "get_first_complement_index (ss_k ss) s2 = Some (first_complement_index, s3)"
    "level_loop f abscissa_row weight_row first_complement_index
       (snd (update_position abscissa_row lmc (ss_max_left_position ss)))
       (snd (update_position abscissa_row rmc (ss_max_right_position ss)))
       0 (Finite 0, Finite 0, ss_calls ss) = Some (sum, absum, calls)"
    "ss' = \<lparr>ss_table = s3, ss_k = ss_k ss + 1,
            ss_I1 = Finite half * ss_I1 ss + sum * Finite (ss_h ss * half),
            ss_L1_I1 = Finite half * ss_L1_I1 ss + absum * Finite (ss_h ss * half),
            ss_h = ss_h ss * half,
            ss_err = \<bar>ss_I1 ss - (Finite half * ss_I1 ss + sum * Finite (ss_h ss * half))\<bar>,
            ss_max_left_position = fst (update_position abscissa_row lmc (ss_max_left_position ss)),
            ss_max_right_position = fst (update_position abscissa_row rmc (ss_max_right_position ss)),
            ss_calls = calls,
            ss_checks = ss_checks ss @
              [(ss_k ss + 1, Finite half * ss_I1 ss + sum * Finite (ss_h ss * half),
                \<bar>ss_I1 ss - (Finite half * ss_I1 ss + sum * Finite (ss_h ss * half))\<bar>,
                Finite half * ss_L1_I1 ss + absum * Finite (ss_h ss * half))]\<rparr>"
  using assms unfolding refine_step_def Let_def
  by (auto split: Option.bind_splits prod.splits)

lemma get_abscissa_row_frame:
  assumes "get_abscissa_row n s = Some (r, s')"
  shows "length (m_weights s') = length (m_weights s)"
    and "m_max_refinements s' = m_max_refinements s"
  using assms by (auto elim!: get_abscissa_row_SomeE dest: extend_refinements_frame)

lemma get_weight_row_frame:
  assumes "get_weight_row n s = Some (r, s')"
  shows "length (m_weights s') = length (m_weights s)"
    and "m_max_refinements s' = m_max_refinements s"
  using assms by (auto elim!: get_weight_row_SomeE dest: extend_refinements_frame)

lemma get_first_complement_index_frame:
  assumes "get_first_complement_index n s = Some (r, s')"
  shows "length (m_weights s') = length (m_weights s)"
    and "m_max_refinements s' = m_max_refinements s"
  using assms by (auto elim!: get_first_complement_index_SomeE dest: extend_refinements_frame)

lemma refine_step_frame:
  assumes "refine_step f lmc rmc ss = Some ss'"
  shows "ss_k ss' = ss_k ss + 1"
    and "length (m_weights (ss_table ss')) = length (m_weights (ss_table ss))"
    and "m_max_refinements (ss_table ss') = m_max_refinements (ss_table ss)"
proof -
  from assms obtain abscissa_row s1 weight_row s2 first_complement_index s3 where
    a: "get_abscissa_row (ss_k ss) (ss_table ss) = Some (abscissa_row, s1)"
    and w: "get_weight_row (ss_k ss) s1 = Some (weight_row, s2)"
    and c: "get_first_complement_index (ss_k ss) s2 = Some (first_complement_index, s3)"
    and k: "ss_k ss' = ss_k ss + 1" and t: "ss_table ss' = s3"
    by (rule refine_step_SomeE) simp
  show "ss_k ss' = ss_k ss + 1" by (rule k)
  show "length (m_weights (ss_table ss')) = length (m_weights (ss_table ss))"
    using get_abscissa_row_frame(1) [OF a] get_weight_row_frame(1) [OF w]
      get_first_complement_index_frame(1) [OF c] t by simp
  show "m_max_refinements (ss_table ss') = m_max_refinements (ss_table ss)"
    using get_abscissa_row_frame(2) [OF a] get_weight_row_frame(2) [OF w]
      get_first_complement_index_frame(2) [OF c] t by simp
qed

text \<open>
  The \<^verbatim>\<open>while\<close> loop. It is left in three ways: by the \<^verbatim>\<open>return\<close> through
  \<^verbatim>\<open>raise_evaluation_error\<close>, by the \<^verbatim>\<open>break\<close> of the tolerance test, and by its
  condition.
\<close>

datatype loop_exit = Raised xreal | Finished

function refine_loop ::
  "integrand \<Rightarrow> real \<Rightarrow> real \<Rightarrow> session \<Rightarrow> (loop_exit \<times> session) option"
where
  "refine_loop f left_min_complement right_min_complement ss =
     (if ss_k ss < 4 \<or> (ss_k ss < length (m_weights (ss_table ss))
                         \<and> ss_k ss < m_max_refinements (ss_table ss)) then
        (case refine_step f left_min_complement right_min_complement ss of
           None \<Rightarrow> None
         | Some ss \<Rightarrow>
             if \<not> isfinite (ss_I1 ss) then Some (Raised (ss_I1 ss), ss)
             else if ss_k ss > 4 \<and> ss_err ss \<le> Finite (m_tol (ss_table ss)) * ss_L1_I1 ss
               then Some (Finished, ss)
             else refine_loop f left_min_complement right_min_complement ss)
      else Some (Finished, ss))"
  by pat_completeness auto
termination
proof (relation "measure (\<lambda>(f, l, r, ss).
         max 4 (min (length (m_weights (ss_table ss))) (m_max_refinements (ss_table ss)))
           - ss_k ss)", goal_cases)
  case 1
  show ?case by simp
next
  case (2 f left_min_complement right_min_complement ss ss')
  from refine_step_frame [OF "2"(2)] "2"(1) show ?case by auto
qed

declare refine_loop.simps [simp del]

text \<open>
  The result of a call. The policy decides what the caller gets when
  \<^verbatim>\<open>raise_evaluation_error\<close> is called (an exception, or a value); the model keeps the
  value that is handed to the policy. \<^verbatim>\<open>Real* error\<close> and \<^verbatim>\<open>Real* L1\<close> are \<open>None\<close>
  for a null pointer and \<open>Some v\<close> for a pointer to a number that holds \<open>v\<close>; the result
  has what they point to after the call. The \<^verbatim>\<open>function\<close> argument only goes into the
  message and is left out. \<^verbatim>\<open>m_inital_row_length\<close> is 7 after the constructor, so the
  division that gives \<^verbatim>\<open>h\<close> is a division by 7.
\<close>

datatype outcome = Returned xreal | EvaluationError xreal

record integrate_result =
  r_outcome :: outcome
  r_error :: "xreal option"
  r_L1 :: "xreal option"
  r_calls :: "call list"
  r_checks :: "check list"
  r_table :: tanh_sinh_detail

definition integrate ::
  "tanh_sinh_detail \<Rightarrow> integrand \<Rightarrow> xreal option \<Rightarrow> xreal option \<Rightarrow> real \<Rightarrow> real
     \<Rightarrow> integrate_result option"
where
  "integrate s f error L1 left_min_complement right_min_complement = do {
     abscissas0 \<leftarrow> vec_at (m_abscissas s) 0;
     let max_left_position = size_dec (length abscissas0);
     let max_right_position = max_left_position;
     max_left_position \<leftarrow> walk_down abscissas0 left_min_complement max_left_position;
     max_right_position \<leftarrow> walk_down abscissas0 right_min_complement max_right_position;
     v \<leftarrow> vec_at abscissas0 max_left_position;
     _ \<leftarrow> boost_assert (v < 0);
     v \<leftarrow> vec_at abscissas0 max_right_position;
     _ \<leftarrow> boost_assert (v < 0);
     let h = m_t_max s / real (m_inital_row_length s);
     let (y, calls) = call_f f Centre 0 1 [];
     let I0 = Finite half_pi * y;
     let L1_I0 = \<bar>I0\<bar>;
     (I0, L1_I0, calls) \<leftarrow>
       level0_loop f s (length abscissas0) max_left_position max_right_position 1
         (I0, L1_I0, calls);
     (exit, ss) \<leftarrow>
       refine_loop f left_min_complement right_min_complement
         \<lparr>ss_table = s, ss_k = 1, ss_I1 = I0, ss_L1_I1 = L1_I0, ss_h = h, ss_err = Finite 0,
          ss_max_left_position = max_left_position,
          ss_max_right_position = max_right_position,
          ss_calls = calls, ss_checks = []\<rparr>;
     Some (case exit of
             Raised v \<Rightarrow>
               \<lparr>r_outcome = EvaluationError v, r_error = error, r_L1 = L1,
                r_calls = ss_calls ss, r_checks = ss_checks ss, r_table = ss_table ss\<rparr>
           | Finished \<Rightarrow>
               \<lparr>r_outcome = Returned (ss_I1 ss),
                r_error = (case error of None \<Rightarrow> None | Some _ \<Rightarrow> Some (ss_err ss)),
                r_L1 = (case L1 of None \<Rightarrow> None | Some _ \<Rightarrow> Some (ss_L1_I1 ss)),
                r_calls = ss_calls ss, r_checks = ss_checks ss, r_table = ss_table ss\<rparr>)
   }"

section \<open>The control flow of \<^verbatim>\<open>integrate\<close>\<close>

text \<open>
  The parts of a recorded check, the tolerance test at the end of a pass and the
  condition of the \<^verbatim>\<open>while\<close> loop, as the source has them.
\<close>

definition estimate :: "check \<Rightarrow> xreal" where
  "estimate = (\<lambda>(k, I1, err, L1_I1). I1)"

definition tolerance_met :: "real \<Rightarrow> check \<Rightarrow> bool" where
  "tolerance_met tol = (\<lambda>(k, I1, err, L1_I1). k > 4 \<and> err \<le> Finite tol * L1_I1)"

definition loop_condition :: "tanh_sinh_detail \<Rightarrow> nat \<Rightarrow> bool" where
  "loop_condition s k = (k < 4 \<or> (k < length (m_weights s) \<and> k < m_max_refinements s))"

definition last_check :: "session \<Rightarrow> check" where
  "last_check ss = (ss_k ss, ss_I1 ss, ss_err ss, ss_L1_I1 ss)"

lemma extend_refinements_tol: "extend_refinements s = Some s' \<Longrightarrow> m_tol s' = m_tol s"
  by (rule extend_refinements_frame)

lemma refine_step_tol:
  assumes "refine_step f lmc rmc ss = Some ss'"
  shows "m_tol (ss_table ss') = m_tol (ss_table ss)"
proof -
  from assms obtain abscissa_row s1 weight_row s2 first_complement_index s3 where
    a: "get_abscissa_row (ss_k ss) (ss_table ss) = Some (abscissa_row, s1)"
    and w: "get_weight_row (ss_k ss) s1 = Some (weight_row, s2)"
    and c: "get_first_complement_index (ss_k ss) s2 = Some (first_complement_index, s3)"
    and t: "ss_table ss' = s3"
    by (rule refine_step_SomeE) simp
  have "m_tol s1 = m_tol (ss_table ss)"
    using a by (auto elim!: get_abscissa_row_SomeE dest: extend_refinements_tol)
  moreover have "m_tol s2 = m_tol s1"
    using w by (auto elim!: get_weight_row_SomeE dest: extend_refinements_tol)
  moreover have "m_tol s3 = m_tol s2"
    using c by (auto elim!: get_first_complement_index_SomeE dest: extend_refinements_tol)
  ultimately show ?thesis using t by simp
qed

lemma refine_step_checks:
  assumes "refine_step f lmc rmc ss = Some ss'"
  shows "ss_checks ss' = ss_checks ss @ [last_check ss']"
  using assms by (rule refine_step_SomeE) (simp add: last_check_def)

text \<open>What the loop adds to the record of checks.\<close>

definition loop_trace :: "tanh_sinh_detail \<Rightarrow> nat \<Rightarrow> check list \<Rightarrow> loop_exit \<Rightarrow> bool" where
  "loop_trace s k new exit =
     ((\<forall>j < length new. fst (new ! j) = k + 1 + j \<and> loop_condition s (k + j))
      \<and> (\<forall>j. Suc j < length new \<longrightarrow>
             isfinite (estimate (new ! j)) \<and> \<not> tolerance_met (m_tol s) (new ! j))
      \<and> (case exit of
            Raised v \<Rightarrow> new \<noteq> [] \<and> estimate (last new) = v \<and> \<not> isfinite v
          | Finished \<Rightarrow>
              (new \<noteq> [] \<longrightarrow> isfinite (estimate (last new)))
              \<and> ((new \<noteq> [] \<and> tolerance_met (m_tol s) (last new))
                  \<or> \<not> loop_condition s (k + length new))))"

lemma loop_trace_Nil: "\<not> loop_condition s k \<Longrightarrow> loop_trace s k [] Finished"
  by (simp add: loop_trace_def)

lemma loop_trace_single_raised:
  "loop_condition s k \<Longrightarrow> fst c = k + 1 \<Longrightarrow> \<not> isfinite (estimate c)
   \<Longrightarrow> loop_trace s k [c] (Raised (estimate c))"
  by (simp add: loop_trace_def)

lemma loop_trace_single_tol:
  "loop_condition s k \<Longrightarrow> fst c = k + 1 \<Longrightarrow> isfinite (estimate c) \<Longrightarrow> tolerance_met (m_tol s) c
   \<Longrightarrow> loop_trace s k [c] Finished"
  by (simp add: loop_trace_def)

lemma loop_trace_Cons:
  assumes "loop_condition s k" "fst c = k + 1" "isfinite (estimate c)"
    "\<not> tolerance_met (m_tol s) c" "loop_trace s (k + 1) new exit"
  shows "loop_trace s k (c # new) exit"
proof -
  have a: "\<forall>j < length (c # new). fst ((c # new) ! j) = k + 1 + j \<and> loop_condition s (k + j)"
  proof (intro allI impI)
    fix j assume "j < length (c # new)"
    then show "fst ((c # new) ! j) = k + 1 + j \<and> loop_condition s (k + j)"
      using assms(1,2,5) by (cases j) (auto simp: loop_trace_def)
  qed
  have b: "\<forall>j. Suc j < length (c # new) \<longrightarrow>
             isfinite (estimate ((c # new) ! j)) \<and> \<not> tolerance_met (m_tol s) ((c # new) ! j)"
  proof (intro allI impI)
    fix j assume "Suc j < length (c # new)"
    then show "isfinite (estimate ((c # new) ! j)) \<and> \<not> tolerance_met (m_tol s) ((c # new) ! j)"
      using assms(3,4,5) by (cases j) (auto simp: loop_trace_def)
  qed
  have e: "(case exit of
            Raised v \<Rightarrow> c # new \<noteq> [] \<and> estimate (last (c # new)) = v \<and> \<not> isfinite v
          | Finished \<Rightarrow>
              (c # new \<noteq> [] \<longrightarrow> isfinite (estimate (last (c # new))))
              \<and> ((c # new \<noteq> [] \<and> tolerance_met (m_tol s) (last (c # new)))
                  \<or> \<not> loop_condition s (k + length (c # new))))"
    using assms(1,3,5) by (cases exit) (auto simp: loop_trace_def)
  show ?thesis unfolding loop_trace_def using a b e by blast
qed

lemma loop_trace_frame:
  assumes "length (m_weights s') = length (m_weights s)"
    and "m_max_refinements s' = m_max_refinements s" and "m_tol s' = m_tol s"
  shows "loop_trace s' = loop_trace s"
  unfolding loop_trace_def loop_condition_def fun_eq_iff
  by (simp only: assms) simp

lemma refine_loop_trace:
  assumes "refine_loop f lmc rmc ss = Some (exit, ss')"
  shows "\<exists>new. ss_checks ss' = ss_checks ss @ new
           \<and> loop_trace (ss_table ss) (ss_k ss) new exit
           \<and> (if new = [] then ss' = ss else last new = last_check ss')"
  using assms
proof (induction f lmc rmc ss rule: refine_loop.induct)
  case (1 f lmc rmc ss)
  show ?case
  proof (cases "loop_condition (ss_table ss) (ss_k ss)")
    case False
    with "1.prems" have "exit = Finished \<and> ss' = ss"
      by (subst (asm) refine_loop.simps) (auto simp: loop_condition_def)
    then have "exit = Finished" "ss' = ss" by simp_all
    with False show ?thesis by (intro exI [of _ "[]"]) (simp add: loop_trace_Nil)
  next
    case True
    then have cond: "ss_k ss < 4 \<or> (ss_k ss < length (m_weights (ss_table ss))
                         \<and> ss_k ss < m_max_refinements (ss_table ss))"
      by (simp add: loop_condition_def)
    from "1.prems" cond obtain ss1 where
      step: "refine_step f lmc rmc ss = Some ss1"
      and rest: "(if \<not> isfinite (ss_I1 ss1) then Some (Raised (ss_I1 ss1), ss1)
             else if ss_k ss1 > 4 \<and> ss_err ss1 \<le> Finite (m_tol (ss_table ss1)) * ss_L1_I1 ss1
               then Some (Finished, ss1)
             else refine_loop f lmc rmc ss1) = Some (exit, ss')"
      by (subst (asm) refine_loop.simps) (simp split: option.splits)
    let ?c = "last_check ss1"
    have chk: "ss_checks ss1 = ss_checks ss @ [?c]" by (rule refine_step_checks [OF step])
    have k1: "fst ?c = ss_k ss + 1"
      using refine_step_frame(1) [OF step] by (simp add: last_check_def)
    have est: "estimate ?c = ss_I1 ss1" by (simp add: estimate_def last_check_def)
    have tol: "tolerance_met (m_tol (ss_table ss)) ?c
        = (ss_k ss1 > 4 \<and> ss_err ss1 \<le> Finite (m_tol (ss_table ss1)) * ss_L1_I1 ss1)"
      using refine_step_tol [OF step] by (simp add: tolerance_met_def last_check_def)
    have fr: "loop_trace (ss_table ss1) = loop_trace (ss_table ss)"
      using refine_step_frame [OF step] refine_step_tol [OF step] by (intro loop_trace_frame)
    show ?thesis
    proof (cases "isfinite (ss_I1 ss1)")
      case False
      with rest have "exit = Raised (ss_I1 ss1)" "ss' = ss1" by auto
      with False chk k1 est True show ?thesis
        by (intro exI [of _ "[?c]"]) (simp add: loop_trace_single_raised [of _ _ ?c, simplified est])
    next
      case fin: True
      show ?thesis
      proof (cases "tolerance_met (m_tol (ss_table ss)) ?c")
        case t: True
        with rest fin tol have "exit = Finished" "ss' = ss1" by auto
        with fin chk k1 est True t show ?thesis
          by (intro exI [of _ "[?c]"]) (simp add: loop_trace_single_tol)
      next
        case f: False
        with rest fin tol have rec: "refine_loop f lmc rmc ss1 = Some (exit, ss')"
          by (auto split: if_splits)
        from f tol have nt: "\<not> (4 < ss_k ss1 \<and> ss_err ss1 \<le> Finite (m_tol (ss_table ss1)) * ss_L1_I1 ss1)"
          by simp
        have fin': "\<not> \<not> isfinite (ss_I1 ss1)" using fin by simp
        from "1.IH" [OF cond step fin' nt rec] obtain new where
          n1: "ss_checks ss' = ss_checks ss1 @ new"
          and n2: "loop_trace (ss_table ss1) (ss_k ss1) new exit"
          and n3: "if new = [] then ss' = ss1 else last new = last_check ss'"
          by blast
        have "loop_trace (ss_table ss) (ss_k ss) (?c # new) exit"
          using True k1 fin est f n2 fr refine_step_frame(1) [OF step]
          by (intro loop_trace_Cons) simp_all
        moreover have "ss_checks ss' = ss_checks ss @ (?c # new)" using n1 chk by simp
        moreover have "last (?c # new) = last_check ss'" using n3 by (auto split: if_splits)
        ultimately show ?thesis by (intro exI [of _ "?c # new"]) simp
      qed
    qed
  qed
qed

lemma integrate_SomeE:
  assumes "integrate s f error L1 lmc rmc = Some res"
  obtains abscissas0 mlp mrp I0 L1_I0 calls exit ss where
    "vec_at (m_abscissas s) 0 = Some abscissas0"
    "walk_down abscissas0 lmc (size_dec (length abscissas0)) = Some mlp"
    "walk_down abscissas0 rmc (size_dec (length abscissas0)) = Some mrp"
    "mlp < length abscissas0" "abscissas0 ! mlp < 0"
    "mrp < length abscissas0" "abscissas0 ! mrp < 0"
    "level0_loop f s (length abscissas0) mlp mrp 1
       (Finite half_pi * f 0 1, \<bar>Finite half_pi * f 0 1\<bar>, [(Centre, 0, 1)])
      = Some (I0, L1_I0, calls)"
    "refine_loop f lmc rmc
       \<lparr>ss_table = s, ss_k = 1, ss_I1 = I0, ss_L1_I1 = L1_I0,
        ss_h = m_t_max s / real (m_inital_row_length s), ss_err = Finite 0,
        ss_max_left_position = mlp, ss_max_right_position = mrp,
        ss_calls = calls, ss_checks = []\<rparr> = Some (exit, ss)"
    "res = (case exit of
             Raised v \<Rightarrow>
               \<lparr>r_outcome = EvaluationError v, r_error = error, r_L1 = L1,
                r_calls = ss_calls ss, r_checks = ss_checks ss, r_table = ss_table ss\<rparr>
           | Finished \<Rightarrow>
               \<lparr>r_outcome = Returned (ss_I1 ss),
                r_error = (case error of None \<Rightarrow> None | Some _ \<Rightarrow> Some (ss_err ss)),
                r_L1 = (case L1 of None \<Rightarrow> None | Some _ \<Rightarrow> Some (ss_L1_I1 ss)),
                r_calls = ss_calls ss, r_checks = ss_checks ss, r_table = ss_table ss\<rparr>)"
  using assms unfolding integrate_def Let_def call_f_def boost_assert_def
  by (auto split: Option.bind_splits if_splits prod.splits simp: vec_at_def)

text \<open>The checks of a whole call, and how the call ends.\<close>

lemma integrate_trace:
  assumes "integrate s f error L1 lmc rmc = Some res"
  obtains exit ss where
    "loop_trace s 1 (r_checks res) exit"
    "r_checks res \<noteq> []"
    "last (r_checks res) = last_check ss"
    "res = (case exit of
             Raised v \<Rightarrow>
               \<lparr>r_outcome = EvaluationError v, r_error = error, r_L1 = L1,
                r_calls = ss_calls ss, r_checks = ss_checks ss, r_table = ss_table ss\<rparr>
           | Finished \<Rightarrow>
               \<lparr>r_outcome = Returned (ss_I1 ss),
                r_error = (case error of None \<Rightarrow> None | Some _ \<Rightarrow> Some (ss_err ss)),
                r_L1 = (case L1 of None \<Rightarrow> None | Some _ \<Rightarrow> Some (ss_L1_I1 ss)),
                r_calls = ss_calls ss, r_checks = ss_checks ss, r_table = ss_table ss\<rparr>)"
proof -
  from assms obtain I0 L1_I0 calls exit ss mlp mrp where
    loop: "refine_loop f lmc rmc
       \<lparr>ss_table = s, ss_k = 1, ss_I1 = I0, ss_L1_I1 = L1_I0,
        ss_h = m_t_max s / real (m_inital_row_length s), ss_err = Finite 0,
        ss_max_left_position = mlp, ss_max_right_position = mrp,
        ss_calls = calls, ss_checks = []\<rparr> = Some (exit, ss)"
    and res: "res = (case exit of
             Raised v \<Rightarrow>
               \<lparr>r_outcome = EvaluationError v, r_error = error, r_L1 = L1,
                r_calls = ss_calls ss, r_checks = ss_checks ss, r_table = ss_table ss\<rparr>
           | Finished \<Rightarrow>
               \<lparr>r_outcome = Returned (ss_I1 ss),
                r_error = (case error of None \<Rightarrow> None | Some _ \<Rightarrow> Some (ss_err ss)),
                r_L1 = (case L1 of None \<Rightarrow> None | Some _ \<Rightarrow> Some (ss_L1_I1 ss)),
                r_calls = ss_calls ss, r_checks = ss_checks ss, r_table = ss_table ss\<rparr>)"
    by (rule integrate_SomeE)
  have chk: "r_checks res = ss_checks ss" using res by (cases exit) simp_all
  from refine_loop_trace [OF loop] obtain new where
    n1: "ss_checks ss = new" and n2: "loop_trace s 1 new exit"
    and n3: "if new = [] then ss = \<lparr>ss_table = s, ss_k = 1, ss_I1 = I0, ss_L1_I1 = L1_I0,
        ss_h = m_t_max s / real (m_inital_row_length s), ss_err = Finite 0,
        ss_max_left_position = mlp, ss_max_right_position = mrp,
        ss_calls = calls, ss_checks = []\<rparr> else last new = last_check ss"
    by auto
  have ne: "new \<noteq> []"
  proof
    assume "new = []"
    with n2 show False by (cases exit) (simp_all add: loop_trace_def loop_condition_def)
  qed
  show thesis
    using that [of exit ss] n1 n2 n3 ne chk res by simp
qed





text \<open>
  C10. When a call ends with an evaluation error, what \<^verbatim>\<open>error\<close> and \<^verbatim>\<open>L1\<close> point to is
  as it was before the call. When it returns, a non-null \<^verbatim>\<open>error\<close> holds the last
  \<^verbatim>\<open>err\<close> and a non-null \<^verbatim>\<open>L1\<close> holds the last \<^verbatim>\<open>L1_I1\<close>.
\<close>

theorem output_slots_written_on_return_only:
  assumes "integrate s f error L1 left_min_complement right_min_complement = Some res"
  shows "case r_outcome res of
           EvaluationError v \<Rightarrow> r_error res = error \<and> r_L1 res = L1
         | Returned v \<Rightarrow>
             (case last (r_checks res) of (k, I1, err, L1_I1) \<Rightarrow>
                r_error res = (case error of None \<Rightarrow> None | Some old \<Rightarrow> Some err)
                \<and> r_L1 res = (case L1 of None \<Rightarrow> None | Some old \<Rightarrow> Some L1_I1))"
proof -
  from assms obtain exit ss where
    tr: "loop_trace s 1 (r_checks res) exit" and ne: "r_checks res \<noteq> []"
    and l: "last (r_checks res) = last_check ss"
    and res: "res = (case exit of
             Raised v \<Rightarrow>
               \<lparr>r_outcome = EvaluationError v, r_error = error, r_L1 = L1,
                r_calls = ss_calls ss, r_checks = ss_checks ss, r_table = ss_table ss\<rparr>
           | Finished \<Rightarrow>
               \<lparr>r_outcome = Returned (ss_I1 ss),
                r_error = (case error of None \<Rightarrow> None | Some _ \<Rightarrow> Some (ss_err ss)),
                r_L1 = (case L1 of None \<Rightarrow> None | Some _ \<Rightarrow> Some (ss_L1_I1 ss)),
                r_calls = ss_calls ss, r_checks = ss_checks ss, r_table = ss_table ss\<rparr>)"
    by (rule integrate_trace)
  show ?thesis
  proof (cases exit)
    case (Raised v)
    with res show ?thesis by simp
  next
    case Finished
    with res l show ?thesis by (simp add: last_check_def)
  qed
qed

section \<open>Properties of the transform\<close>

lemma one_minus_tanh: "1 - tanh (u::real) = 1 / (exp u * cosh u)"
proof -
  have c: "cosh u \<noteq> 0" using cosh_real_pos [of u] by simp
  have "1 - tanh u = (cosh u - sinh u) / cosh u"
    using c by (simp add: tanh_def field_simps)
  also have "cosh u - sinh u = exp (- u)"
    by (simp add: cosh_def sinh_def field_simps)
  also have "exp (- u) / cosh u = 1 / (exp u * cosh u)"
    by (simp add: exp_minus field_simps)
  finally show ?thesis .
qed

text \<open>
  C8. For every parameter \<open>t\<close>, over the real numbers, the complement form
  \<open>1 / (exp u * cosh u)\<close> with \<open>u = (pi / 2) * sinh t\<close> is one minus the abscissa
  \<open>tanh u\<close>: \<^verbatim>\<open>abscissa_complement_at_t(t)\<close> = 1 - \<^verbatim>\<open>abscissa_at_t(t)\<close>.
\<close>

theorem complement_is_one_minus_abscissa:
  "abscissa_complement_at_t t = 1 - abscissa_at_t t
   \<and> 1 / (exp (pi / 2 * sinh t) * cosh (pi / 2 * sinh t)) = 1 - tanh (pi / 2 * sinh t)"
  by (simp add: abscissa_complement_at_t_def abscissa_at_t_def one_minus_tanh Let_def half_pi_def)

lemma exp_cosh: "exp (u::real) * cosh u = (exp (2 * u) + 1) / 2"
proof -
  have "exp (2 * u) = exp u * exp u" by (simp add: exp_add [symmetric])
  moreover have "exp u * exp (- u) = 1" by (simp add: exp_minus)
  ultimately show ?thesis by (simp add: cosh_def algebra_simps)
qed

lemma half_pi_pos: "0 < half_pi" by (simp add: half_pi_def)

lemma complement_eq: "abscissa_complement_at_t t = 2 / (exp (pi * sinh t) + 1)"
  by (simp add: abscissa_complement_at_t_def Let_def exp_cosh half_pi_def)

lemma complement_pos: "0 < abscissa_complement_at_t t"
proof -
  have "0 < exp (pi * sinh t) + 1" by (simp add: add_pos_pos)
  then show ?thesis by (simp add: complement_eq)
qed

lemma complement_less_iff:
  "abscissa_complement_at_t t < abscissa_complement_at_t s \<longleftrightarrow> s < t"
proof -
  have a: "0 < exp (pi * sinh t) + 1" and b: "0 < exp (pi * sinh s) + 1"
    by (simp_all add: add_pos_pos)
  have "abscissa_complement_at_t t < abscissa_complement_at_t s
        \<longleftrightarrow> exp (pi * sinh s) + 1 < exp (pi * sinh t) + 1"
    unfolding complement_eq using a b by (simp add: field_simps)
  also have "\<dots> \<longleftrightarrow> s < t" by simp
  finally show ?thesis .
qed

lemma complement_le_iff:
  "abscissa_complement_at_t t \<le> abscissa_complement_at_t s \<longleftrightarrow> s \<le> t"
  using complement_less_iff [of s t] by (auto simp: not_less [symmetric])

lemma abscissa_nonneg: "0 \<le> t \<Longrightarrow> 0 \<le> abscissa_at_t t"
  using half_pi_pos by (simp add: abscissa_at_t_def)

lemma abscissa_zero: "abscissa_at_t 0 = 0"
  by (simp add: abscissa_at_t_def)

definition t_cross :: real where
  "t_cross = t_from_abscissa_complement (1 / 2)"

lemma ln_sqrt3_bounds: "0 < ln (sqrt 3 :: real)" "ln (sqrt 3 :: real) \<le> 3 / 5"
proof -
  have "1 < sqrt (3::real)" by simp
  then show "0 < ln (sqrt 3 :: real)" by simp
  have "(11/10 :: real) \<le> exp (1/10)" using exp_ge_add_one_self [of "1/10 :: real"] by simp
  then have "(11/10 :: real) ^ 12 \<le> exp (1/10) ^ 12" by (intro power_mono) simp_all
  also have "exp (1/10 :: real) ^ 12 = exp (6/5)" by (simp add: exp_of_nat_mult [symmetric])
  finally have "(11/10 :: real) ^ 12 \<le> exp (6/5)" .
  moreover have "(3::real) \<le> (11/10) ^ 12" by (simp add: power_divide)
  ultimately have "(3::real) \<le> exp (6/5)" by (rule order_trans [rotated])
  then have "ln (3::real) \<le> ln (exp (6/5))" by (subst ln_le_cancel_iff) simp_all
  then have "ln (3::real) \<le> 6/5" by simp
  then show "ln (sqrt 3 :: real) \<le> 3 / 5" by (simp add: ln_sqrt)
qed

lemma exp_1_ge: "(9/4 :: real) \<le> exp 1"
proof -
  have "(3/2 :: real) \<le> exp (1/2)" using exp_ge_add_one_self [of "1/2 :: real"] by simp
  then have "(3/2 :: real) ^ 2 \<le> exp (1/2) ^ 2" by (intro power_mono) simp_all
  also have "exp (1/2 :: real) ^ 2 = exp 1" by (simp add: exp_of_nat_mult [symmetric])
  finally show ?thesis by (simp add: power2_eq_square)
qed

lemma t_cross_bounds: "0 < t_cross" "t_cross \<le> 1"
proof -
  define l where "l = ln (sqrt 3 :: real)"
  define r where "r = sqrt (4 * l * l + pi * pi)"
  have l: "0 < l" "l \<le> 3/5" using ln_sqrt3_bounds by (simp_all add: l_def)
  have tc: "t_cross = ln ((r + 2 * l) / pi)"
    by (simp add: t_cross_def t_from_abscissa_complement_def l_def r_def Let_def)
  have "pi * pi < 4 * l * l + pi * pi" using l by simp
  then have "sqrt (pi * pi) < r" unfolding r_def by (rule real_sqrt_less_mono)
  then have r1: "pi < r" by simp
  have "4 * l * l + pi * pi \<le> (2 * l + pi) * (2 * l + pi)"
    using l pi_gt_zero by (simp add: algebra_simps)
  then have "r \<le> sqrt ((2 * l + pi) * (2 * l + pi))" unfolding r_def by (rule real_sqrt_le_mono)
  then have r2: "r \<le> 2 * l + pi" using l pi_gt_zero by simp
  have "1 < (r + 2 * l) / pi" using r1 l pi_gt_zero by (simp add: field_simps)
  then show "0 < t_cross" unfolding tc by (rule ln_gt_zero)
  have "4 * l \<le> 2 * (6 / 5)" using l by simp
  also have "\<dots> \<le> pi * (5 / 4)" using pi_ge_two by simp
  finally have "r + 2 * l \<le> pi * (9 / 4)" using r2 by simp
  also have "\<dots> \<le> pi * exp 1" using exp_1_ge by (intro mult_left_mono) simp_all
  finally have le: "(r + 2 * l) / pi \<le> exp 1" using pi_gt_zero by (simp add: field_simps)
  have "0 < r" using r1 pi_gt_zero by linarith
  then have pos: "0 < (r + 2 * l) / pi" using l by (simp add: add_pos_pos)
  have "ln ((r + 2 * l) / pi) \<le> ln (exp 1)" using le pos by (subst ln_le_cancel_iff) simp_all
  then show "t_cross \<le> 1" unfolding tc by simp
qed

lemma complement_1_ge: "1 / 1000 \<le> abscissa_complement_at_t 1"
proof -
  have e3: "exp (1::real) \<le> 3" by (rule exp_le)
  have "sinh (1::real) \<le> exp 1 / 2" by (simp add: sinh_def field_simps)
  then have s: "sinh (1::real) \<le> 3 / 2" using e3 by simp
  have s0: "0 \<le> sinh (1::real)" by simp
  have "pi * sinh 1 \<le> 4 * (3 / 2)"
    using pi_less_4 s s0 by (intro mult_mono) simp_all
  then have "exp (pi * sinh 1) \<le> exp 6" by simp
  also have "exp (6::real) = exp 1 ^ 6" by (simp add: exp_of_nat_mult [symmetric])
  also have "\<dots> \<le> 3 ^ 6" using e3 by (intro power_mono) simp_all
  finally have "exp (pi * sinh 1) + 1 \<le> 2000" by simp
  moreover have "0 < exp (pi * sinh 1) + 1" by (simp add: add_pos_pos)
  ultimately show ?thesis unfolding complement_eq by (simp add: field_simps)
qed

lemma complement_7_less: "abscissa_complement_at_t 7 < 1 / 1000"
proof -
  define a :: real where "a = exp 7"
  have e2: "(2::real) \<le> exp 1" using exp_ge_add_one_self [of "1::real"] by simp
  have "(2::real) ^ 7 \<le> exp 1 ^ 7" using e2 by (intro power_mono) simp_all
  also have "exp (1::real) ^ 7 = a" by (simp add: exp_of_nat_mult [symmetric] a_def)
  finally have e7: "128 \<le> a" by simp
  define b :: real where "b = exp (- 7)"
  have em: "b \<le> 1" by (simp add: b_def)
  have "6 \<le> (a - b) / 2" using e7 em by simp
  also have "(a - b) / 2 = sinh (7::real)" by (simp add: sinh_def a_def b_def)
  finally have s: "(6::real) \<le> sinh 7" .
  have "2 * 6 \<le> pi * sinh 7"
    using pi_ge_two s by (intro mult_mono) simp_all
  then have le: "exp (12::real) \<le> exp (pi * sinh 7)" by simp
  have "(2::real) ^ 12 \<le> exp 1 ^ 12" using e2 by (intro power_mono) simp_all
  also have "exp (1::real) ^ 12 = exp 12" by (simp add: exp_of_nat_mult [symmetric])
  also note le
  finally have "(4096::real) \<le> exp (pi * sinh 7)" by simp
  then have "2000 < exp (pi * sinh 7) + 1" by simp
  then show ?thesis unfolding complement_eq by (simp add: field_simps)
qed

section \<open>The rows of the table\<close>

text \<open>
  The values that \<^verbatim>\<open>pos\<close> takes in \<^verbatim>\<open>for (pos = p; pos < t_max; pos += 2 * h)\<close>.
\<close>

definition n_points :: "real \<Rightarrow> real \<Rightarrow> real \<Rightarrow> nat" where
  "n_points p h t_max = nat \<lceil>(t_max - p) / (2 * h)\<rceil>"

definition points :: "real \<Rightarrow> real \<Rightarrow> real \<Rightarrow> real list" where
  "points p h t_max = map (\<lambda>i. p + 2 * h * real i) [0..<n_points p h t_max]"

definition stored_abscissa :: "real \<Rightarrow> real \<Rightarrow> real" where
  "stored_abscissa t_crossover pos =
     (if pos < t_crossover then abscissa_at_t pos else - abscissa_complement_at_t pos)"

lemma less_n_points:
  assumes "0 < h"
  shows "i < n_points p h t_max \<longleftrightarrow> p + 2 * h * real i < t_max"
proof -
  have "i < n_points p h t_max \<longleftrightarrow> int i < \<lceil>(t_max - p) / (2 * h)\<rceil>"
    unfolding n_points_def by linarith
  also have "\<dots> \<longleftrightarrow> real_of_int (int i) < (t_max - p) / (2 * h)"
    by (rule less_ceiling_iff)
  also have "\<dots> \<longleftrightarrow> p + 2 * h * real i < t_max"
    using assms by (simp add: field_simps)
  finally show ?thesis .
qed

lemma n_points_0: "0 < h \<Longrightarrow> \<not> p < t_max \<Longrightarrow> n_points p h t_max = 0"
  using less_n_points [of h 0 p t_max] by simp

lemma n_points_Suc:
  assumes "0 < h" "p < t_max"
  shows "n_points p h t_max = Suc (n_points (p + 2 * h) h t_max)"
proof -
  have "(t_max - p) / (2 * h) = (t_max - (p + 2 * h)) / (2 * h) + 1"
    using assms by (simp add: field_simps)
  then have "\<lceil>(t_max - p) / (2 * h)\<rceil> = \<lceil>(t_max - (p + 2 * h)) / (2 * h)\<rceil> + 1"
    by simp
  moreover have "0 < \<lceil>(t_max - p) / (2 * h)\<rceil>"
    using assms by (simp add: zero_less_ceiling)
  ultimately show ?thesis unfolding n_points_def by linarith
qed

lemma points_Nil: "0 < h \<Longrightarrow> \<not> p < t_max \<Longrightarrow> points p h t_max = []"
  by (simp add: points_def n_points_0)

lemma points_Cons:
  assumes "0 < h" "p < t_max"
  shows "points p h t_max = p # points (p + 2 * h) h t_max"
proof -
  have "[0..<Suc (n_points (p + 2 * h) h t_max)]
        = 0 # map Suc [0..<n_points (p + 2 * h) h t_max]"
    by (simp add: upt_conv_Cons map_Suc_upt del: upt_Suc)
  then show ?thesis
    unfolding points_def n_points_Suc [OF assms]
    by (simp add: algebra_simps comp_def del: upt_Suc)
qed

lemma length_points: "length (points p h t_max) = n_points p h t_max"
  by (simp add: points_def)

lemma nth_points: "i < n_points p h t_max \<Longrightarrow> points p h t_max ! i = p + 2 * h * real i"
  by (simp add: points_def)

lemma extend_abscissas_eq:
  assumes "0 < h" "row < length abscissas"
  shows "extend_abscissas p h t_max t_crossover row (abscissas, first_complement)
    = Some (abscissas[row := abscissas ! row @ map (stored_abscissa t_crossover) (points p h t_max)],
            first_complement + length (filter (\<lambda>pos. pos < t_crossover) (points p h t_max)))"
  using assms
proof (induction p h t_max t_crossover row "(abscissas, first_complement)"
       arbitrary: abscissas first_complement rule: extend_abscissas.induct)
  case (1 pos h t_max t_crossover row abscissas first_complement)
  show ?case
  proof (cases "pos < t_max")
    case False
    then show ?thesis using "1.prems"
      by (subst extend_abscissas.simps) (simp add: points_Nil)
  next
    case True
    let ?a = "abscissas[row := abscissas ! row @ [stored_abscissa t_crossover pos]]"
    let ?fc = "if pos < t_crossover then first_complement + 1 else first_complement"
    have h: "\<not> h \<le> 0" using "1.prems" by simp
    have pb: "push_back_row abscissas row
            (if pos < t_crossover then abscissa_at_t pos else - abscissa_complement_at_t pos)
          = Some ?a"
      using "1.prems" by (simp add: push_back_row_def stored_abscissa_def)
    have len: "row < length ?a" using "1.prems" by simp
    have "extend_abscissas pos h t_max t_crossover row (abscissas, first_complement)
          = extend_abscissas (pos + 2 * h) h t_max t_crossover row (?a, ?fc)"
      by (subst extend_abscissas.simps) (simp add: True h pb del: push_back_row_def)
    also have "\<dots> = Some (?a[row := ?a ! row @ map (stored_abscissa t_crossover)
                              (points (pos + 2 * h) h t_max)],
            ?fc + length (filter (\<lambda>pos. pos < t_crossover) (points (pos + 2 * h) h t_max)))"
      by (rule "1.hyps" [OF True h pb "1.prems"(1) len])
    also have "\<dots> = Some (abscissas[row := abscissas ! row
                 @ map (stored_abscissa t_crossover) (points pos h t_max)],
            first_complement + length (filter (\<lambda>pos. pos < t_crossover) (points pos h t_max)))"
      using "1.prems" True by (simp add: points_Cons)
    finally show ?thesis .
  qed
qed


lemma extend_weights_eq:
  assumes "0 < h" "row < length weights"
  shows "extend_weights p h t_max row weights
    = Some (weights[row := weights ! row @ map weight_at_t (points p h t_max)])"
  using assms
proof (induction p h t_max row weights rule: extend_weights.induct)
  case (1 pos h t_max row weights)
  show ?case
  proof (cases "pos < t_max")
    case False
    then show ?thesis using "1.prems"
      by (subst extend_weights.simps) (simp add: points_Nil)
  next
    case True
    let ?w = "weights[row := weights ! row @ [weight_at_t pos]]"
    have h: "\<not> h \<le> 0" using "1.prems" by simp
    have pb: "push_back_row weights row (weight_at_t pos) = Some ?w"
      using "1.prems" by (simp add: push_back_row_def)
    have len: "row < length ?w" using "1.prems" by simp
    have "extend_weights pos h t_max row weights = extend_weights (pos + 2 * h) h t_max row ?w"
      by (subst extend_weights.simps) (simp add: True h pb del: push_back_row_def)
    also have "\<dots> = Some (?w[row := ?w ! row @ map weight_at_t (points (pos + 2 * h) h t_max)])"
      by (rule "1.IH" [OF True h pb "1.prems"(1) len])
    also have "\<dots> = Some (weights[row := weights ! row @ map weight_at_t (points pos h t_max)])"
      using "1.prems" True by (simp add: points_Cons)
    finally show ?thesis .
  qed
qed

lemma init_abscissas_eq:
  assumes "0 < h"
  shows "init_abscissas p h t_max t_crossover (temp, first_complement)
    = Some (temp @ map (stored_abscissa t_crossover) (points p h t_max),
            first_complement + length (filter (\<lambda>pos. pos < t_crossover) (points p h t_max)))"
  using assms
proof (induction p h t_max t_crossover "(temp, first_complement)"
       arbitrary: temp first_complement rule: init_abscissas.induct)
  case (1 pos h t_max t_crossover temp first_complement)
  show ?case
  proof (cases "pos < t_max")
    case False
    then show ?thesis using "1.prems"
      by (subst init_abscissas.simps) (simp add: points_Nil)
  next
    case True
    let ?t = "temp @ [stored_abscissa t_crossover pos]"
    let ?fc = "if pos < t_crossover then first_complement + 1 else first_complement"
    have h: "\<not> h \<le> 0" using "1.prems" by simp
    have "init_abscissas pos h t_max t_crossover (temp, first_complement)
          = init_abscissas (pos + 2 * h) h t_max t_crossover (?t, ?fc)"
      by (subst init_abscissas.simps) (simp add: True h stored_abscissa_def)
    also have "\<dots> = Some (?t @ map (stored_abscissa t_crossover) (points (pos + 2 * h) h t_max),
            ?fc + length (filter (\<lambda>pos. pos < t_crossover) (points (pos + 2 * h) h t_max)))"
      using "1.hyps" [OF True h "1.prems"] by (simp add: stored_abscissa_def)
    also have "\<dots> = Some (temp @ map (stored_abscissa t_crossover) (points pos h t_max),
            first_complement + length (filter (\<lambda>pos. pos < t_crossover) (points pos h t_max)))"
      using "1.prems" True by (simp add: points_Cons)
    finally show ?thesis .
  qed
qed

lemma init_weights_eq:
  assumes "0 < h"
  shows "init_weights p h t_max temp = Some (temp @ map weight_at_t (points p h t_max))"
  using assms
proof (induction p h t_max temp rule: init_weights.induct)
  case (1 pos h t_max temp)
  show ?case
  proof (cases "pos < t_max")
    case False
    then show ?thesis using "1.prems"
      by (subst init_weights.simps) (simp add: points_Nil)
  next
    case True
    have h: "\<not> h \<le> 0" using "1.prems" by simp
    have "init_weights pos h t_max temp
          = init_weights (pos + 2 * h) h t_max (temp @ [weight_at_t pos])"
      by (subst init_weights.simps) (simp add: True h)
    also have "\<dots> = Some ((temp @ [weight_at_t pos])
                           @ map weight_at_t (points (pos + 2 * h) h t_max))"
      by (rule "1.IH" [OF True h "1.prems"])
    also have "\<dots> = Some (temp @ map weight_at_t (points pos h t_max))"
      using "1.prems" True by (simp add: points_Cons)
    finally show ?thesis .
  qed
qed

lemma ldexp_neg: "ldexp 1 (- int row) = 1 / 2 ^ row"
proof (cases row)
  case 0
  then show ?thesis by (simp add: ldexp_def)
next
  case (Suc n)
  have "nat (int (Suc n)) = Suc n" by (rule nat_int)
  then show ?thesis using Suc by (simp add: ldexp_def del: of_nat_Suc)
qed

text \<open>The points of level \<open>k\<close>: \<open>h, 3h, 5h, ...\<close> below \<open>t_max\<close>, with \<open>h = 1 / 2 ^ k\<close>.\<close>

definition level_points :: "nat \<Rightarrow> real \<Rightarrow> real list" where
  "level_points k t_max = points (1 / 2 ^ k) (1 / 2 ^ k) t_max"

lemma extend_refinements_eq:
  assumes "m_committed_refinements s + 1 < length (m_abscissas s)"
    and "m_committed_refinements s + 1 < length (m_first_complements s)"
    and "m_committed_refinements s + 1 < length (m_weights s)"
  shows "extend_refinements s =
    Some (s\<lparr>m_committed_refinements := m_committed_refinements s + 1,
            m_abscissas := (m_abscissas s)[m_committed_refinements s + 1 :=
               m_abscissas s ! (m_committed_refinements s + 1)
               @ map (stored_abscissa (m_t_crossover s))
                   (level_points (m_committed_refinements s + 1) (m_t_max s))],
            m_first_complements := (m_first_complements s)[m_committed_refinements s + 1 :=
               length (filter (\<lambda>pos. pos < m_t_crossover s)
                   (level_points (m_committed_refinements s + 1) (m_t_max s)))],
            m_weights := (m_weights s)[m_committed_refinements s + 1 :=
               m_weights s ! (m_committed_refinements s + 1)
               @ map weight_at_t (level_points (m_committed_refinements s + 1) (m_t_max s))]\<rparr>)"
proof -
  have h: "(0::real) < 1 / 2 ^ (m_committed_refinements s + 1)" by simp
  show ?thesis
    unfolding extend_refinements_def Let_def ldexp_neg level_points_def
    using assms
    by (simp only: extend_abscissas_eq [OF h assms(1)] extend_weights_eq [OF h assms(3)]
          vec_set_def) simp
qed

section \<open>The table that the constructor builds\<close>

text \<open>
  The table of the standard strategy with the rows 0, ..., \<open>filled\<close> computed, as an
  explicit value.
\<close>

definition std_abscissas :: "nat \<Rightarrow> nat \<Rightarrow> real list" where
  "std_abscissas filled k =
     (if k = 0 then map (\<lambda>i. stored_abscissa t_cross (real i)) [0..<7] @ [abscissa_complement_at_t 7]
      else if k \<le> filled then map (stored_abscissa t_cross) (level_points k 7)
      else [])"

definition std_weights :: "nat \<Rightarrow> nat \<Rightarrow> real list" where
  "std_weights filled k =
     (if k = 0 then map (\<lambda>i. weight_at_t (real i)) [0..<7] @ [weight_at_t 7]
      else if k \<le> filled then map weight_at_t (level_points k 7)
      else [])"

definition std_first_complement :: "nat \<Rightarrow> nat \<Rightarrow> nat" where
  "std_first_complement filled k =
     (if k = 0 then 0
      else if k \<le> filled then length (filter (\<lambda>pos. pos < t_cross) (level_points k 7))
      else 0)"

definition std_table :: "real \<Rightarrow> nat \<Rightarrow> nat \<Rightarrow> nat \<Rightarrow> tanh_sinh_detail" where
  "std_table tol max_refinements filled committed =
     \<lparr>m_abscissas = map (std_abscissas filled) [0..<max_refinements + 1],
      m_weights = map (std_weights filled) [0..<max_refinements + 1],
      m_first_complements = map (std_first_complement filled) [0..<max_refinements + 1],
      m_max_refinements = max_refinements,
      m_inital_row_length = 7,
      m_committed_refinements = committed,
      m_tol = tol,
      m_t_max = 7,
      m_t_crossover = t_cross\<rparr>"

lemma map_upt_update:
  assumes "row < n" "\<And>k. k < n \<Longrightarrow> k \<noteq> row \<Longrightarrow> g k = f k" "g row = v"
  shows "(map f [0..<n])[row := v] = map g [0..<n]"
  using assms by (intro nth_equalityI) (auto simp: nth_list_update)

lemma extend_refinements_std:
  assumes "c < max_refinements"
  shows "extend_refinements (std_table tol max_refinements c c)
         = Some (std_table tol max_refinements (c + 1) (c + 1))"
proof -
  let ?s = "std_table tol max_refinements c c"
  have a: "(m_abscissas ?s)[c + 1 := m_abscissas ?s ! (c + 1)
               @ map (stored_abscissa (m_t_crossover ?s)) (level_points (c + 1) (m_t_max ?s))]
        = map (std_abscissas (c + 1)) [0..<max_refinements + 1]"
    unfolding std_table_def tanh_sinh_detail.simps
    using assms by (intro map_upt_update) (auto simp: std_abscissas_def simp del: upt_Suc)
  have f: "(m_first_complements ?s)[c + 1 :=
               length (filter (\<lambda>pos. pos < m_t_crossover ?s) (level_points (c + 1) (m_t_max ?s)))]
        = map (std_first_complement (c + 1)) [0..<max_refinements + 1]"
    unfolding std_table_def tanh_sinh_detail.simps
    using assms by (intro map_upt_update) (auto simp: std_first_complement_def simp del: upt_Suc)
  have w: "(m_weights ?s)[c + 1 := m_weights ?s ! (c + 1)
               @ map weight_at_t (level_points (c + 1) (m_t_max ?s))]
        = map (std_weights (c + 1)) [0..<max_refinements + 1]"
    unfolding std_table_def tanh_sinh_detail.simps
    using assms by (intro map_upt_update) (auto simp: std_weights_def simp del: upt_Suc)
  have c: "m_committed_refinements ?s = c" by (simp add: std_table_def)
  have "extend_refinements ?s = Some (?s\<lparr>m_committed_refinements := c + 1,
            m_abscissas := map (std_abscissas (c + 1)) [0..<max_refinements + 1],
            m_first_complements := map (std_first_complement (c + 1)) [0..<max_refinements + 1],
            m_weights := map (std_weights (c + 1)) [0..<max_refinements + 1]\<rparr>)"
    using assms extend_refinements_eq [of ?s] unfolding a f w c
    by (simp add: std_table_def del: upt_Suc)
  then show ?thesis by (simp add: std_table_def del: upt_Suc)
qed


lemma upt_7: "[0..<7] = [0, 1, 2, 3, 4, 5, 6::nat]"
  by code_simp

lemma replicate_8: "replicate 8 (0::real) = [0, 0, 0, 0, 0, 0, 0, 0]"
  by (simp add: numeral_eq_Suc)

lemma init_row_std:
  assumes "j < max_refinements"
  shows "init_row (j + 1) (1 / 2 ^ j) [] (std_table tol max_refinements j c)
         = Some (1 / 2 ^ (j + 1), [], std_table tol max_refinements (j + 1) c)"
proof -
  let ?s = "std_table tol max_refinements j c"
  have h: "(0::real) < 1 / 2 ^ j / 2" by simp
  have h2: "(1::real) / 2 ^ j / 2 = 1 / 2 ^ (j + 1)" by simp
  have a: "swap_row (m_abscissas ?s) (j + 1) (map (stored_abscissa t_cross) (level_points (j + 1) 7))
        = Some ([], map (std_abscissas (j + 1)) [0..<max_refinements + 1])"
    unfolding std_table_def tanh_sinh_detail.simps swap_row_def
    using assms map_upt_update [of "j + 1" "max_refinements + 1" "std_abscissas (j + 1)" "std_abscissas j"
        "map (stored_abscissa t_cross) (level_points (j + 1) 7)"]
    by (auto simp: std_abscissas_def simp del: upt_Suc)
  have w: "swap_row (m_weights ?s) (j + 1) (map weight_at_t (level_points (j + 1) 7))
        = Some ([], map (std_weights (j + 1)) [0..<max_refinements + 1])"
    unfolding std_table_def tanh_sinh_detail.simps swap_row_def
    using assms map_upt_update [of "j + 1" "max_refinements + 1" "std_weights (j + 1)" "std_weights j"
        "map weight_at_t (level_points (j + 1) 7)"]
    by (auto simp: std_weights_def simp del: upt_Suc)
  have f: "vec_set (m_first_complements ?s) (j + 1)
             (length (filter (\<lambda>pos. pos < t_cross) (level_points (j + 1) 7)))
        = Some (map (std_first_complement (j + 1)) [0..<max_refinements + 1])"
    unfolding std_table_def tanh_sinh_detail.simps vec_set_def
    using assms map_upt_update [of "j + 1" "max_refinements + 1" "std_first_complement (j + 1)"
        "std_first_complement j" "length (filter (\<lambda>pos. pos < t_cross) (level_points (j + 1) 7))"]
    by (auto simp: std_first_complement_def simp del: upt_Suc)
  have t: "m_t_max ?s = 7" "m_t_crossover ?s = t_cross" by (simp_all add: std_table_def)
  define hh :: real where "hh = 1 / 2 ^ (j + 1)"
  have hh: "0 < hh" by (simp add: hh_def)
  have h2: "1 / 2 ^ j / 2 = hh" by (simp add: hh_def)
  have lp: "level_points (j + 1) 7 = points hh hh 7" by (simp only: level_points_def hh_def)
  have ia: "init_abscissas hh hh 7 t_cross ([], 0)
      = Some (map (stored_abscissa t_cross) (level_points (j + 1) 7),
              length (filter (\<lambda>pos. pos < t_cross) (level_points (j + 1) 7)))"
    unfolding lp using init_abscissas_eq [OF hh, of hh 7 t_cross "[]" 0] by simp
  have iw: "init_weights hh hh 7 []
      = Some (map weight_at_t (level_points (j + 1) 7))"
    unfolding lp using init_weights_eq [OF hh, of hh 7 "[]"] by simp
  have "init_row (j + 1) (1 / 2 ^ j) [] ?s
      = Some (hh, [],
          ?s\<lparr>m_abscissas := map (std_abscissas (j + 1)) [0..<max_refinements + 1],
             m_first_complements := map (std_first_complement (j + 1)) [0..<max_refinements + 1],
             m_weights := map (std_weights (j + 1)) [0..<max_refinements + 1]\<rparr>)"
    unfolding init_row_def Let_def t h2
    by (simp only: ia iw a w f Option.bind.simps prod.case)
  then have "init_row (j + 1) (1 / 2 ^ j) [] ?s
      = Some (1 / 2 ^ (j + 1), [],
          ?s\<lparr>m_abscissas := map (std_abscissas (j + 1)) [0..<max_refinements + 1],
             m_first_complements := map (std_first_complement (j + 1)) [0..<max_refinements + 1],
             m_weights := map (std_weights (j + 1)) [0..<max_refinements + 1]\<rparr>)"
    by (simp only: hh_def)
  then show ?thesis
    by (simp add: std_table_def del: upt_Suc)
qed

lemma init_rows_std:
  assumes "j + n \<le> max_refinements"
  shows "init_rows n (j + 1) (1 / 2 ^ j) [] (std_table tol max_refinements j c)
         = Some (std_table tol max_refinements (j + n) c)"
  using assms
proof (induction n arbitrary: j)
  case 0
  show ?case by simp
next
  case (Suc n)
  have "j < max_refinements" using Suc.prems by simp
  from init_row_std [OF this, of tol c] Suc.IH [of "j + 1"] Suc.prems
  show ?case by simp
qed

lemma init0_unfold:
  "init0 tol max_refinements initial_commit
   = init_rows initial_commit (0 + 1) (1 / 2 ^ 0) []
       (std_table tol max_refinements 0 initial_commit)"
proof -
  have fc: "snd (fold (first_row_step h tc) ix acc) = snd acc" for h tc ix acc
    by (induction ix arbitrary: acc) (auto simp: first_row_step_def Let_def split: prod.splits)
  have step: "first_row_step h tc i (temp, first_complement)
              = (temp[i := stored_abscissa tc (h * real i)], first_complement)"
    for h tc i temp first_complement
    by (simp add: first_row_step_def stored_abscissa_def Let_def)
  have row0: "(fst (fold (first_row_step 1 t_cross) [0..<7] (replicate 8 0, 0)))
                [7 := abscissa_complement_at_t 7]
              = std_abscissas 0 0"
    by (simp add: upt_7 replicate_8 step std_abscissas_def)
  have w0: "(fold (\<lambda>i temp. temp[i := weight_at_t (real i)]) [0..<7] (replicate 8 0))
                [7 := weight_at_t 7]
              = std_weights 0 0"
    by (simp add: upt_7 replicate_8 std_weights_def)
  have a: "std_abscissas 0 0 # replicate max_refinements []
           = map (std_abscissas 0) [0..<Suc max_refinements]"
    by (intro nth_equalityI) (auto simp: nth_Cons' std_abscissas_def simp del: upt_Suc)
  have w: "std_weights 0 0 # replicate max_refinements []
           = map (std_weights 0) [0..<Suc max_refinements]"
    by (intro nth_equalityI) (auto simp: nth_Cons' std_weights_def simp del: upt_Suc)
  have f: "0 # replicate max_refinements 0
           = map (std_first_complement 0) [0..<Suc max_refinements]"
    by (intro nth_equalityI) (auto simp: nth_Cons' std_first_complement_def simp del: upt_Suc)
  show ?thesis
    unfolding init0_def Let_def
    apply (simp add: split_beta swap_row_def vec_set_def t_cross_def [symmetric] del: upt_Suc)
    apply (simp only: fc row0 w0 a w f snd_conv)
    apply (simp add: std_table_def del: upt_Suc)
    done
qed

lemma init0_std:
  assumes "initial_commit \<le> max_refinements"
  shows "init0 tol max_refinements initial_commit
         = Some (std_table tol max_refinements initial_commit initial_commit)"
proof -
  have "init0 tol max_refinements initial_commit
        = init_rows initial_commit (0 + 1) (1 / 2 ^ 0) []
            (std_table tol max_refinements 0 initial_commit)"
    by (rule init0_unfold)
  also have "\<dots> = Some (std_table tol max_refinements (0 + initial_commit) initial_commit)"
    using assms by (intro init_rows_std) simp
  finally show ?thesis by simp
qed

lemma filter_less_upt: "filter (\<lambda>i. i < a) [0..<b] = [0..<min a b]"
proof (induction b)
  case 0
  show ?case by simp
next
  case (Suc b)
  show ?case
  proof (cases "b < a")
    case True
    then have "min a (Suc b) = Suc b" "min a b = b" by simp_all
    with Suc True show ?thesis by simp
  next
    case False
    then have "min a (Suc b) = a" "min a b = a" by simp_all
    with Suc False show ?thesis by simp
  qed
qed

lemma length_filter_points:
  assumes "0 < h"
  shows "length (filter (\<lambda>q. q < tc) (points p h t_max))
         = min (n_points p h tc) (n_points p h t_max)"
proof -
  have "filter (\<lambda>q. q < tc) (points p h t_max)
        = map (\<lambda>i. p + 2 * h * real i) (filter (\<lambda>i. i < n_points p h tc) [0..<n_points p h t_max])"
    unfolding points_def filter_map comp_def less_n_points [OF assms] ..
  then show ?thesis by (simp add: filter_less_upt)
qed

lemma below_crossover_iff:
  assumes "0 < h" "j < n_points p h t_max"
  shows "j < length (filter (\<lambda>q. q < tc) (points p h t_max)) \<longleftrightarrow> points p h t_max ! j < tc"
  using assms by (simp add: length_filter_points less_n_points nth_points)

lemma n_level_points:
  assumes "1 \<le> k"
  shows "n_points (1 / 2 ^ k) (1 / 2 ^ k) 7 = 7 * 2 ^ (k - 1)"
proof -
  have h: "(0::real) < 1 / 2 ^ k" by simp
  obtain k' where k: "k = Suc k'" using assms by (cases k) auto
  have iff: "i < n_points (1 / 2 ^ k) (1 / 2 ^ k) 7 \<longleftrightarrow> i < 7 * 2 ^ (k - 1)" for i
  proof -
    have "i < n_points (1 / 2 ^ k) (1 / 2 ^ k) 7
          \<longleftrightarrow> 1 / 2 ^ k + 2 * (1 / 2 ^ k) * real i < 7"
      by (rule less_n_points [OF h])
    also have "\<dots> \<longleftrightarrow> 1 + 2 * real i < 7 * 2 ^ k"
      by (simp add: field_simps)
    also have "\<dots> \<longleftrightarrow> real (1 + 2 * i) < real (7 * 2 ^ k)" by simp
    also have "\<dots> \<longleftrightarrow> 1 + 2 * i < 7 * 2 ^ k" by (rule of_nat_less_iff)
    also have "\<dots> \<longleftrightarrow> i < 7 * 2 ^ (k - 1)" unfolding k by simp arith
    finally show ?thesis .
  qed
  show ?thesis
  proof (rule antisym)
    show "n_points (1 / 2 ^ k) (1 / 2 ^ k) 7 \<le> 7 * 2 ^ (k - 1)"
      using iff [of "7 * 2 ^ (k - 1)"] by simp
    show "7 * 2 ^ (k - 1) \<le> n_points (1 / 2 ^ k) (1 / 2 ^ k) 7"
      using iff [of "n_points (1 / 2 ^ k) (1 / 2 ^ k) 7"] by simp
  qed
qed

lemma length_level_points: "1 \<le> k \<Longrightarrow> length (level_points k 7) = 7 * 2 ^ (k - 1)"
  by (simp add: level_points_def length_points n_level_points)

lemma nth_level_points:
  assumes "1 \<le> k" "j < 7 * 2 ^ (k - 1)"
  shows "level_points k 7 ! j = real (2 * j + 1) / 2 ^ k"
  using assms unfolding level_points_def
  by (simp add: nth_points n_level_points field_simps)

lemma level_below_crossover_iff:
  assumes "1 \<le> k" "j < 7 * 2 ^ (k - 1)"
  shows "j < length (filter (\<lambda>q. q < tc) (level_points k 7)) \<longleftrightarrow> level_points k 7 ! j < tc"
  unfolding level_points_def
  using assms by (intro below_crossover_iff) (simp_all add: n_level_points)

text \<open>What a stored abscissa stands for.\<close>

lemma stored_abscissa_complement:
  "t_cross \<le> pos \<Longrightarrow> stored_abscissa t_cross pos = - abscissa_complement_at_t pos"
  by (simp add: stored_abscissa_def)

lemma stored_abscissa_direct:
  "pos < t_cross \<Longrightarrow> stored_abscissa t_cross pos = abscissa_at_t pos"
  by (simp add: stored_abscissa_def)

lemma abscissa_minus_one: "abscissa_at_t t - 1 = - abscissa_complement_at_t t"
  by (simp add: abscissa_complement_at_t_def abscissa_at_t_def one_minus_tanh [symmetric] Let_def)


section \<open>Calls of the integrand stay away from the endpoints\<close>

text \<open>
  A call is safe for the thresholds when the complement it passes is at least the
  threshold of its side in absolute value; the call at the centre is held to both.
\<close>

definition safe_call :: "real \<Rightarrow> real \<Rightarrow> call \<Rightarrow> bool" where
  "safe_call left_min_complement right_min_complement = (\<lambda>(sd, x, xc).
     (sd \<noteq> Left \<longrightarrow> right_min_complement \<le> \<bar>xc\<bar>)
     \<and> (sd \<noteq> Right \<longrightarrow> left_min_complement \<le> \<bar>xc\<bar>))"

text \<open>
  The precondition of \<^verbatim>\<open>integrate\<close>: the two assertions after the walks hold, that is,
  each walk ends on a stored value that is negative.
\<close>

definition walk_ends_on_complement :: "real list \<Rightarrow> real \<Rightarrow> bool" where
  "walk_ends_on_complement abscissas0 min_complement =
     (case walk_down abscissas0 min_complement (size_dec (length abscissas0)) of
        None \<Rightarrow> False
      | Some p \<Rightarrow> (case vec_at abscissas0 p of None \<Rightarrow> False | Some v \<Rightarrow> v < 0))"

definition precondition :: "tanh_sinh_detail \<Rightarrow> real \<Rightarrow> real \<Rightarrow> bool" where
  "precondition s left_min_complement right_min_complement =
     (case vec_at (m_abscissas s) 0 of
        None \<Rightarrow> False
      | Some abscissas0 \<Rightarrow>
          walk_ends_on_complement abscissas0 left_min_complement
          \<and> walk_ends_on_complement abscissas0 right_min_complement)"

lemma walk_down_Some:
  "p < length row \<Longrightarrow>
   \<exists>q. walk_down row c p = Some q \<and> q \<le> p \<and> (q = 0 \<or> \<not> \<bar>row ! q\<bar> < c)"
proof (induction p)
  case 0
  show ?case by simp
next
  case (Suc p)
  then obtain q where "walk_down row c p = Some q" "q \<le> p" "q = 0 \<or> \<not> \<bar>row ! q\<bar> < c"
    by auto
  with Suc.prems show ?case by (auto simp: vec_at_def)
qed

lemma std_row0:
  "std_abscissas filled 0 =
     [0, - abscissa_complement_at_t 1, - abscissa_complement_at_t 2,
      - abscissa_complement_at_t 3, - abscissa_complement_at_t 4,
      - abscissa_complement_at_t 5, - abscissa_complement_at_t 6,
      abscissa_complement_at_t 7]"
  using t_cross_bounds
  by (simp add: std_abscissas_def upt_7 stored_abscissa_def abscissa_zero)

lemma std_row0_nth:
  assumes "1 \<le> i" "i \<le> 6"
  shows "std_abscissas filled 0 ! i = - abscissa_complement_at_t (real i)"
proof -
  from assms have "i = 1 \<or> i = 2 \<or> i = 3 \<or> i = 4 \<or> i = 5 \<or> i = 6" by arith
  then show ?thesis unfolding std_row0 by auto
qed

lemma length_std_row0: "length (std_abscissas filled 0) = 8"
  by (simp add: std_row0)

lemma length_std_weights0: "length (std_weights filled 0) = 8"
  by (simp add: std_weights_def)

lemma std_table_rows:
  assumes "k \<le> max_refinements"
  shows "vec_at (m_abscissas (std_table tol max_refinements filled committed)) k
           = Some (std_abscissas filled k)"
    and "vec_at (m_weights (std_table tol max_refinements filled committed)) k
           = Some (std_weights filled k)"
    and "vec_at (m_first_complements (std_table tol max_refinements filled committed)) k
           = Some (std_first_complement filled k)"
  using assms by (simp_all add: std_table_def vec_at_def del: upt_Suc)

text \<open>
  On the table of the constructor the precondition says that each walk ends on one of
  the positions 1, ..., 6, whose complement is at least the threshold.
\<close>

lemma walk_std:
  assumes "walk_ends_on_complement (std_abscissas filled 0) c"
  obtains p where "walk_down (std_abscissas filled 0) c 7 = Some p" "1 \<le> p" "p \<le> 6"
    "c \<le> abscissa_complement_at_t (real p)"
proof -
  have sd: "size_dec (length (std_abscissas filled 0)) = 7"
    by (simp add: length_std_row0 size_dec_def)
  obtain p where w: "walk_down (std_abscissas filled 0) c 7 = Some p" and le: "p \<le> 7"
    and stop: "p = 0 \<or> \<not> \<bar>std_abscissas filled 0 ! p\<bar> < c"
    using walk_down_Some [of 7 "std_abscissas filled 0" c] by (auto simp: length_std_row0)
  from assms w le have neg: "std_abscissas filled 0 ! p < 0"
    by (simp add: walk_ends_on_complement_def size_dec_def vec_at_def length_std_row0)
  have p0: "p \<noteq> 0"
  proof
    assume "p = 0"
    with neg show False by (simp add: std_row0)
  qed
  have p7: "p \<noteq> 7"
  proof
    assume "p = 7"
    with neg complement_pos [of 7] show False by (simp add: std_row0)
  qed
  have r: "1 \<le> p" "p \<le> 6" using p0 p7 le by simp_all
  have "c \<le> abscissa_complement_at_t (real p)"
    using stop p0 complement_pos [of "real p"] by (simp add: std_row0_nth [OF r])
  with w r show thesis by (rule that)
qed

lemma safe_call_append:
  "\<forall>c \<in> set calls. safe_call l r c \<Longrightarrow> \<forall>c \<in> set new. safe_call l r c
   \<Longrightarrow> \<forall>c \<in> set (calls @ new). safe_call l r c"
  by auto

text \<open>
  One abscissa of a row, evaluated on the sides that the indices allow: the calls that
  are added pass a complement of absolute value \<open>cpl\<close>.
\<close>

lemma level0_point_std:
  assumes "1 \<le> i" "i \<le> 6" "i \<le> max_left_position \<or> i \<le> max_right_position"
    and "i \<le> max_left_position \<Longrightarrow> left_min_complement \<le> abscissa_complement_at_t (real i)"
    and "i \<le> max_right_position \<Longrightarrow> right_min_complement \<le> abscissa_complement_at_t (real i)"
    and "\<forall>c \<in> set (snd (snd acc)). safe_call left_min_complement right_min_complement c"
  shows "\<exists>acc'. level0_point f (std_table tol max_refinements filled committed)
                  max_left_position max_right_position i acc = Some acc'
          \<and> (\<forall>c \<in> set (snd (snd acc')). safe_call left_min_complement right_min_complement c)"
proof -
  obtain I0 L1_I0 calls where acc: "acc = (I0, L1_I0, calls)" by (cases acc) auto
  have a: "vec_at (std_abscissas filled 0) i = Some (- abscissa_complement_at_t (real i))"
    using assms(1,2) by (simp add: vec_at_def length_std_row0 std_row0_nth)
  have w: "vec_at (std_weights filled 0) i = Some (std_weights filled 0 ! i)"
    using assms(2) by (simp add: vec_at_def length_std_weights0)
  have sb: "signbit (- abscissa_complement_at_t (real i))"
    using complement_pos [of "real i"] by (simp add: signbit_def)
  have abs: "\<bar>abscissa_complement_at_t (real i)\<bar> = abscissa_complement_at_t (real i)"
    using complement_pos [of "real i"] by simp
  show ?thesis
    unfolding level0_point_def acc
    using assms(3-6) acc
    by (auto simp: std_table_rows a w sb abs call_f_def safe_call_def Let_def)
qed

lemma level0_loop_std:
  assumes "1 \<le> max_left_position" "max_left_position \<le> 6"
    and "1 \<le> max_right_position" "max_right_position \<le> 6"
    and "left_min_complement \<le> abscissa_complement_at_t (real max_left_position)"
    and "right_min_complement \<le> abscissa_complement_at_t (real max_right_position)"
    and "1 \<le> i"
    and "\<forall>c \<in> set (snd (snd acc)). safe_call left_min_complement right_min_complement c"
  shows "\<exists>acc'. level0_loop f (std_table tol max_refinements filled committed) 8
                  max_left_position max_right_position i acc = Some acc'
          \<and> (\<forall>c \<in> set (snd (snd acc')). safe_call left_min_complement right_min_complement c)"
  using assms(7,8)
proof (induction "8 - i" arbitrary: i acc)
  case 0
  then have "level0_loop f (std_table tol max_refinements filled committed) 8
                  max_left_position max_right_position i acc = Some acc"
    by (subst level0_loop.simps) simp
  with "0.prems" show ?case by blast
next
  case (Suc n)
  show ?case
  proof (cases "i > max_right_position \<and> i > max_left_position")
    case True
    then have "level0_loop f (std_table tol max_refinements filled committed) 8
                  max_left_position max_right_position i acc = Some acc"
      by (subst level0_loop.simps) simp
    with Suc.prems show ?thesis by blast
  next
    case False
    then have side: "i \<le> max_left_position \<or> i \<le> max_right_position" by auto
    then have i6: "i \<le> 6" using assms(2,4) by auto
    have l: "left_min_complement \<le> abscissa_complement_at_t (real i)" if "i \<le> max_left_position"
    proof -
      have "abscissa_complement_at_t (real max_left_position) \<le> abscissa_complement_at_t (real i)"
        using that by (simp add: complement_le_iff)
      with assms(5) show ?thesis by simp
    qed
    have r: "right_min_complement \<le> abscissa_complement_at_t (real i)" if "i \<le> max_right_position"
    proof -
      have "abscissa_complement_at_t (real max_right_position) \<le> abscissa_complement_at_t (real i)"
        using that by (simp add: complement_le_iff)
      with assms(6) show ?thesis by simp
    qed
    obtain acc1 where
      p: "level0_point f (std_table tol max_refinements filled committed)
            max_left_position max_right_position i acc = Some acc1"
      and s1: "\<forall>c \<in> set (snd (snd acc1)). safe_call left_min_complement right_min_complement c"
      using level0_point_std [OF Suc.prems(1) i6 side l r Suc.prems(2)] by blast
    have n: "n = 8 - (i + 1)" using Suc.hyps(2) by simp
    have "1 \<le> i + 1" by simp
    from Suc.hyps(1) [OF n this s1] obtain acc' where
      rec: "level0_loop f (std_table tol max_refinements filled committed) 8
          max_left_position max_right_position (i + 1) acc1 = Some acc'"
      and s': "\<forall>c \<in> set (snd (snd acc')). safe_call left_min_complement right_min_complement c"
      by blast
    have "level0_loop f (std_table tol max_refinements filled committed) 8
                  max_left_position max_right_position i acc = Some acc'"
      using p False i6 rec by (subst level0_loop.simps) auto
    with s' show ?thesis by blast
  qed
qed


text \<open>
  A position \<open>p\<close>, counted in steps of level \<open>lev\<close>, that lies in the part of the row
  stored as complements, inside the row, and whose complement is at least the threshold.
\<close>

definition position_ok :: "real \<Rightarrow> nat \<Rightarrow> nat \<Rightarrow> bool" where
  "position_ok min_complement lev p =
     (2 ^ lev \<le> p \<and> p < 7 * 2 ^ lev
      \<and> min_complement \<le> abscissa_complement_at_t (real p / 2 ^ lev))"

lemma update_position_std:
  assumes ok: "position_ok mc lev p" and lev: "lev < 60"
  shows "\<exists>p' idx. update_position (map (stored_abscissa t_cross) (level_points (lev + 1) 7)) mc p
                    = (p', idx)
           \<and> position_ok mc (lev + 1) p' \<and> 2 * idx + 1 \<le> p'"
proof -
  let ?row = "map (stored_abscissa t_cross) (level_points (lev + 1) 7)"
  from ok have p1: "2 ^ lev \<le> p" and p2: "p < 7 * 2 ^ lev"
    and p3: "mc \<le> abscissa_complement_at_t (real p / 2 ^ lev)"
    by (simp_all add: position_ok_def)
  have "1 \<le> (2::nat) ^ lev" by simp
  then have pos: "1 \<le> p" using p1 by (rule order_trans)
  have "(2::nat) ^ lev \<le> 2 ^ 59" using lev by (intro power_increasing) simp_all
  then have bound: "p < 7 * 2 ^ 59" using p2 by simp
  have dec: "size_dec p = p - 1" using pos by (simp add: size_dec_def)
  have dbl: "size_double p = 2 * p" using bound by (simp add: size_double_def)
  have inc1: "size_inc (p - 1) = p" using pos bound by (simp add: size_inc_def SIZE_MAX_def)
  have inc2: "size_inc (2 * p) = 2 * p + 1" using bound by (simp add: size_inc_def SIZE_MAX_def)
  have len: "length ?row = 7 * 2 ^ lev" by (simp add: length_level_points)
  have same: "real (2 * p) / 2 ^ (lev + 1) = real p / 2 ^ lev" by simp
  show ?thesis
  proof (cases "length ?row > p \<and> \<bar>?row ! p\<bar> > mc")
    case True
    then have up: "update_position ?row mc p = (2 * p + 1, p)"
      unfolding update_position_def Let_def dec dbl inc1 inc2 by auto
    have nth: "level_points (lev + 1) 7 ! p = real (2 * p + 1) / 2 ^ (lev + 1)"
      using p2 by (intro nth_level_points) simp_all
    have "(1::real) \<le> real p / 2 ^ lev"
      using p1 by (simp add: field_simps)
    also have "\<dots> \<le> real (2 * p + 1) / 2 ^ (lev + 1)"
      unfolding same [symmetric] by (intro divide_right_mono) simp_all
    finally have ge1: "1 \<le> real (2 * p + 1) / 2 ^ (lev + 1)" .
    with t_cross_bounds(2) have "t_cross \<le> real (2 * p + 1) / 2 ^ (lev + 1)"
      by (rule order_trans)
    then have "?row ! p = - abscissa_complement_at_t (real (2 * p + 1) / 2 ^ (lev + 1))"
      using p2 nth by (simp add: len [simplified] length_level_points stored_abscissa_complement)
    then have "mc \<le> abscissa_complement_at_t (real (2 * p + 1) / 2 ^ (lev + 1))"
      using True complement_pos [of "real (2 * p + 1) / 2 ^ (lev + 1)"] by simp
    moreover have "2 ^ (lev + 1) \<le> 2 * p + 1" using p1 by simp
    moreover have "2 * p + 1 < 7 * 2 ^ (lev + 1)" using p2 by simp
    ultimately have "position_ok mc (lev + 1) (2 * p + 1)" by (simp add: position_ok_def)
    with up show ?thesis by simp
  next
    case False
    then have up: "update_position ?row mc p = (2 * p, p - 1)"
      unfolding update_position_def Let_def dec dbl inc1 inc2 by auto
    have "position_ok mc (lev + 1) (2 * p)"
      unfolding position_ok_def same using p1 p2 p3 by simp
    moreover have "2 * (p - 1) + 1 \<le> 2 * p" using pos by simp
    ultimately show ?thesis using up by simp
  qed
qed

text \<open>Up to an index covered by an admissible position the complements are large enough.\<close>

lemma index_covered:
  assumes ok: "position_ok mc (lev + 1) p'" and idx: "2 * idx + 1 \<le> p'"
    and j: "j \<le> idx" "j < 7 * 2 ^ lev"
  shows "mc \<le> abscissa_complement_at_t (level_points (lev + 1) 7 ! j)"
proof -
  have nth: "level_points (lev + 1) 7 ! j = real (2 * j + 1) / 2 ^ (lev + 1)"
    using j by (intro nth_level_points) simp_all
  have "2 * j + 1 \<le> p'" using idx j by simp
  then have "real (2 * j + 1) \<le> real p'" by (rule of_nat_mono)
  then have "real (2 * j + 1) / 2 ^ (lev + 1) \<le> real p' / 2 ^ (lev + 1)"
    by (intro divide_right_mono) simp_all
  then have "abscissa_complement_at_t (real p' / 2 ^ (lev + 1))
             \<le> abscissa_complement_at_t (level_points (lev + 1) 7 ! j)"
    unfolding nth by (simp add: complement_le_iff)
  with ok show ?thesis by (simp add: position_ok_def)
qed


lemma level_point_std:
  assumes k: "1 \<le> k" and j: "j < 7 * 2 ^ (k - 1)"
    and l: "\<not> j > max_left_index \<Longrightarrow>
              left_min_complement \<le> abscissa_complement_at_t (level_points k 7 ! j)"
    and r: "\<not> j > max_right_index \<Longrightarrow>
              right_min_complement \<le> abscissa_complement_at_t (level_points k 7 ! j)"
    and safe: "\<forall>c \<in> set (snd (snd acc)). safe_call left_min_complement right_min_complement c"
  shows "\<exists>acc'. level_point f (map (stored_abscissa t_cross) (level_points k 7))
                  (map weight_at_t (level_points k 7))
                  (length (filter (\<lambda>q. q < t_cross) (level_points k 7)))
                  max_left_index max_right_index j acc = Some acc'
          \<and> (\<forall>c \<in> set (snd (snd acc')). safe_call left_min_complement right_min_complement c)"
proof -
  obtain sum absum calls where acc: "acc = (sum, absum, calls)" by (cases acc) auto
  define pos where "pos = level_points k 7 ! j"
  define cpl where "cpl = abscissa_complement_at_t pos"
  have len: "length (level_points k 7) = 7 * 2 ^ (k - 1)" using k by (rule length_level_points)
  have a: "vec_at (map (stored_abscissa t_cross) (level_points k 7)) j
           = Some (stored_abscissa t_cross pos)"
    using j by (simp add: vec_at_def len pos_def)
  have w: "vec_at (map weight_at_t (level_points k 7)) j = Some (weight_at_t pos)"
    using j by (simp add: vec_at_def len pos_def)
  have fci: "j \<ge> length (filter (\<lambda>q. q < t_cross) (level_points k 7)) \<longleftrightarrow> \<not> pos < t_cross"
    using level_below_crossover_iff [OF k j, of t_cross] by (auto simp: pos_def)
  have "pos = real (2 * j + 1) / 2 ^ k" unfolding pos_def using k j by (rule nth_level_points)
  then have pos0: "0 \<le> pos" by simp
  have cpl0: "0 < cpl" unfolding cpl_def by (rule complement_pos)
  have abs: "\<bar>cpl\<bar> = cpl" using cpl0 by simp
  have l': "\<not> j > max_left_index \<Longrightarrow> left_min_complement \<le> cpl"
    and r': "\<not> j > max_right_index \<Longrightarrow> right_min_complement \<le> cpl"
    using l r by (simp_all add: cpl_def pos_def)
  show ?thesis
  proof (cases "pos < t_cross")
    case True
    then have st: "stored_abscissa t_cross pos = abscissa_at_t pos"
      by (rule stored_abscissa_direct)
    have nn: "0 \<le> abscissa_at_t pos" using pos0 by (rule abscissa_nonneg)
    have m1: "abscissa_at_t pos - 1 = - cpl" unfolding cpl_def by (rule abscissa_minus_one)
    show ?thesis
      unfolding level_point_def acc a w st
      using True fci nn l' r' safe acc
      by (auto simp: boost_assert_def call_f_def safe_call_def m1 abs Let_def)
  next
    case False
    then have st: "stored_abscissa t_cross pos = - cpl"
      unfolding cpl_def by (intro stored_abscissa_complement) simp
    show ?thesis
      unfolding level_point_def acc a w st
      using False fci cpl0 l' r' safe acc
      by (auto simp: boost_assert_def call_f_def safe_call_def abs Let_def)
  qed
qed

lemma level_loop_std:
  assumes k: "1 \<le> k"
    and l: "\<And>j. j \<le> max_left_index \<Longrightarrow> j < 7 * 2 ^ (k - 1) \<Longrightarrow>
              left_min_complement \<le> abscissa_complement_at_t (level_points k 7 ! j)"
    and r: "\<And>j. j \<le> max_right_index \<Longrightarrow> j < 7 * 2 ^ (k - 1) \<Longrightarrow>
              right_min_complement \<le> abscissa_complement_at_t (level_points k 7 ! j)"
    and safe: "\<forall>c \<in> set (snd (snd acc)). safe_call left_min_complement right_min_complement c"
  shows "\<exists>acc'. level_loop f (map (stored_abscissa t_cross) (level_points k 7))
                  (map weight_at_t (level_points k 7))
                  (length (filter (\<lambda>q. q < t_cross) (level_points k 7)))
                  max_left_index max_right_index j acc = Some acc'
          \<and> (\<forall>c \<in> set (snd (snd acc')). safe_call left_min_complement right_min_complement c)"
  using safe
proof (induction "7 * 2 ^ (k - 1) - j" arbitrary: j acc)
  case 0
  then have "\<not> j < length (map weight_at_t (level_points k 7))"
    using k by (simp add: length_level_points)
  then have "level_loop f (map (stored_abscissa t_cross) (level_points k 7))
                  (map weight_at_t (level_points k 7))
                  (length (filter (\<lambda>q. q < t_cross) (level_points k 7)))
                  max_left_index max_right_index j acc = Some acc"
    by (subst level_loop.simps) simp
  with "0.prems" show ?case by blast
next
  case (Suc n)
  then have j: "j < 7 * 2 ^ (k - 1)" by simp
  then have jl: "j < length (map weight_at_t (level_points k 7))"
    using k by (simp add: length_level_points)
  show ?case
  proof (cases "j > max_left_index \<and> j > max_right_index")
    case True
    with jl have "level_loop f (map (stored_abscissa t_cross) (level_points k 7))
                  (map weight_at_t (level_points k 7))
                  (length (filter (\<lambda>q. q < t_cross) (level_points k 7)))
                  max_left_index max_right_index j acc = Some acc"
      by (subst level_loop.simps) simp
    with Suc.prems show ?thesis by blast
  next
    case False
    have l': "\<not> j > max_left_index \<Longrightarrow>
              left_min_complement \<le> abscissa_complement_at_t (level_points k 7 ! j)"
      using l [of j] j by simp
    have r': "\<not> j > max_right_index \<Longrightarrow>
              right_min_complement \<le> abscissa_complement_at_t (level_points k 7 ! j)"
      using r [of j] j by simp
    obtain acc1 where
      p: "level_point f (map (stored_abscissa t_cross) (level_points k 7))
                  (map weight_at_t (level_points k 7))
                  (length (filter (\<lambda>q. q < t_cross) (level_points k 7)))
                  max_left_index max_right_index j acc = Some acc1"
      and s1: "\<forall>c \<in> set (snd (snd acc1)). safe_call left_min_complement right_min_complement c"
      using level_point_std [OF k j l' r' Suc.prems] by blast
    have n: "n = 7 * 2 ^ (k - 1) - (j + 1)" using Suc.hyps(2) by simp
    from Suc.hyps(1) [OF n s1] obtain acc' where
      rec: "level_loop f (map (stored_abscissa t_cross) (level_points k 7))
                  (map weight_at_t (level_points k 7))
                  (length (filter (\<lambda>q. q < t_cross) (level_points k 7)))
                  max_left_index max_right_index (j + 1) acc1 = Some acc'"
      and s': "\<forall>c \<in> set (snd (snd acc')). safe_call left_min_complement right_min_complement c"
      by blast
    have "level_loop f (map (stored_abscissa t_cross) (level_points k 7))
                  (map weight_at_t (level_points k 7))
                  (length (filter (\<lambda>q. q < t_cross) (level_points k 7)))
                  max_left_index max_right_index j acc = Some acc'"
      using p False jl rec by (subst level_loop.simps) auto
    with s' show ?thesis by blast
  qed
qed

text \<open>The accessors on the table of the constructor.\<close>

lemma std_rows_level:
  assumes "1 \<le> k" "k \<le> filled"
  shows "std_abscissas filled k = map (stored_abscissa t_cross) (level_points k 7)"
    and "std_weights filled k = map weight_at_t (level_points k 7)"
    and "std_first_complement filled k = length (filter (\<lambda>q. q < t_cross) (level_points k 7))"
  using assms by (simp_all add: std_abscissas_def std_weights_def std_first_complement_def)

lemma std_table_sel:
  "m_committed_refinements (std_table tol m filled c) = c"
  "m_max_refinements (std_table tol m filled c) = m"
  "length (m_weights (std_table tol m filled c)) = m + 1"
  "m_tol (std_table tol m filled c) = tol"
  "m_t_max (std_table tol m filled c) = 7"
  "m_inital_row_length (std_table tol m filled c) = 7"
  by (simp_all add: std_table_def del: upt_Suc)

lemma get_abscissa_row_std:
  assumes "1 \<le> k" "k \<le> c + 1" "k \<le> m"
  shows "get_abscissa_row k (std_table tol m c c)
         = Some (map (stored_abscissa t_cross) (level_points k 7),
                 std_table tol m (max c k) (max c k))"
proof (cases "c < k")
  case True
  then have kc: "k = c + 1" "max c k = c + 1" using assms by simp_all
  have "c < m" using assms True by simp
  then have ext: "extend_refinements (std_table tol m c c) = Some (std_table tol m (c + 1) (c + 1))"
    by (rule extend_refinements_std)
  show ?thesis
    unfolding get_abscissa_row_def kc
    using True assms
    by (simp add: std_table_sel ext boost_assert_def std_table_rows std_rows_level kc)
next
  case False
  then have "max c k = c" by simp
  then show ?thesis
    unfolding get_abscissa_row_def
    using False assms
    by (simp add: std_table_sel boost_assert_def std_table_rows std_rows_level)
qed

lemma get_weight_row_std:
  assumes "1 \<le> k" "k \<le> c" "k \<le> m"
  shows "get_weight_row k (std_table tol m c c)
         = Some (map weight_at_t (level_points k 7), std_table tol m c c)"
  unfolding get_weight_row_def using assms
  by (simp add: std_table_sel boost_assert_def std_table_rows std_rows_level)

lemma get_first_complement_index_std:
  assumes "1 \<le> k" "k \<le> c" "k \<le> m"
  shows "get_first_complement_index k (std_table tol m c c)
         = Some (length (filter (\<lambda>q. q < t_cross) (level_points k 7)), std_table tol m c c)"
  unfolding get_first_complement_index_def using assms
  by (simp add: std_table_sel boost_assert_def std_table_rows std_rows_level)

text \<open>What holds of the variables of a call at the start of every pass of the loop.\<close>

definition session_ok :: "real \<Rightarrow> nat \<Rightarrow> real \<Rightarrow> real \<Rightarrow> session \<Rightarrow> bool" where
  "session_ok tol m left_min_complement right_min_complement ss =
     (\<exists>c. ss_table ss = std_table tol m c c \<and> c \<le> m
         \<and> 1 \<le> ss_k ss \<and> ss_k ss \<le> c + 1
         \<and> position_ok left_min_complement (ss_k ss - 1) (ss_max_left_position ss)
         \<and> position_ok right_min_complement (ss_k ss - 1) (ss_max_right_position ss)
         \<and> (\<forall>c \<in> set (ss_calls ss). safe_call left_min_complement right_min_complement c))"

lemma refine_step_std:
  assumes ok: "session_ok tol m lmc rmc ss" and km: "ss_k ss \<le> m" and m60: "m \<le> 60"
  shows "\<exists>ss'. refine_step f lmc rmc ss = Some ss' \<and> session_ok tol m lmc rmc ss'"
proof -
  define k where "k = ss_k ss"
  from ok obtain c where
    tbl: "ss_table ss = std_table tol m c c" and cm: "c \<le> m"
    and k1: "1 \<le> k" and kc: "k \<le> c + 1"
    and pl: "position_ok lmc (k - 1) (ss_max_left_position ss)"
    and pr: "position_ok rmc (k - 1) (ss_max_right_position ss)"
    and safe: "\<forall>c \<in> set (ss_calls ss). safe_call lmc rmc c"
    unfolding session_ok_def k_def by blast
  define c' where "c' = max c k"
  have kc': "k \<le> c'" and c'm: "c' \<le> m" using cm km by (simp_all add: c'_def k_def)
  have lev: "k - 1 < 60" "k - 1 + 1 = k" using k1 km m60 by (simp_all add: k_def)
  let ?row = "map (stored_abscissa t_cross) (level_points k 7)"
  obtain lp li where
    ul: "update_position ?row lmc (ss_max_left_position ss) = (lp, li)"
    and lpok: "position_ok lmc k lp" and li: "2 * li + 1 \<le> lp"
    using update_position_std [OF pl lev(1)] unfolding lev(2) by blast
  obtain rp ri where
    ur: "update_position ?row rmc (ss_max_right_position ss) = (rp, ri)"
    and rpok: "position_ok rmc k rp" and ri: "2 * ri + 1 \<le> rp"
    using update_position_std [OF pr lev(1)] unfolding lev(2) by blast
  have lcov: "lmc \<le> abscissa_complement_at_t (level_points k 7 ! j)"
    if "j \<le> li" "j < 7 * 2 ^ (k - 1)" for j
    using index_covered [of lmc "k - 1" lp li j] lpok li that unfolding lev(2) by simp
  have rcov: "rmc \<le> abscissa_complement_at_t (level_points k 7 ! j)"
    if "j \<le> ri" "j < 7 * 2 ^ (k - 1)" for j
    using index_covered [of rmc "k - 1" rp ri j] rpok ri that unfolding lev(2) by simp
  have safe': "\<forall>c \<in> set (snd (snd (Finite 0, Finite 0, ss_calls ss))). safe_call lmc rmc c"
    using safe by simp
  obtain sum absum calls where
    loop: "level_loop f ?row (map weight_at_t (level_points k 7))
             (length (filter (\<lambda>q. q < t_cross) (level_points k 7))) li ri 0
             (Finite 0, Finite 0, ss_calls ss) = Some (sum, absum, calls)"
    and safe1: "\<forall>c \<in> set calls. safe_call lmc rmc c"
    using level_loop_std [OF k1 lcov rcov safe', of li ri f 0] by auto
  have ga: "get_abscissa_row k (ss_table ss) = Some (?row, std_table tol m c' c')"
    unfolding tbl c'_def using k1 kc km by (intro get_abscissa_row_std) (simp_all add: k_def)
  have gw: "get_weight_row k (std_table tol m c' c')
            = Some (map weight_at_t (level_points k 7), std_table tol m c' c')"
    using k1 kc' km by (intro get_weight_row_std) (simp_all add: k_def)
  have gf: "get_first_complement_index k (std_table tol m c' c')
            = Some (length (filter (\<lambda>q. q < t_cross) (level_points k 7)), std_table tol m c' c')"
    using k1 kc' km by (intro get_first_complement_index_std) (simp_all add: k_def)
  have step: "refine_step f lmc rmc ss =
     Some \<lparr>ss_table = std_table tol m c' c', ss_k = k + 1,
           ss_I1 = Finite half * ss_I1 ss + sum * Finite (ss_h ss * half),
           ss_L1_I1 = Finite half * ss_L1_I1 ss + absum * Finite (ss_h ss * half),
           ss_h = ss_h ss * half,
           ss_err = \<bar>ss_I1 ss - (Finite half * ss_I1 ss + sum * Finite (ss_h ss * half))\<bar>,
           ss_max_left_position = lp,
           ss_max_right_position = rp,
           ss_calls = calls,
           ss_checks = ss_checks ss @
              [(k + 1, Finite half * ss_I1 ss + sum * Finite (ss_h ss * half),
                \<bar>ss_I1 ss - (Finite half * ss_I1 ss + sum * Finite (ss_h ss * half))\<bar>,
                Finite half * ss_L1_I1 ss + absum * Finite (ss_h ss * half))]\<rparr>"
    unfolding refine_step_def Let_def k_def [symmetric]
    by (simp only: ga gw gf ul ur loop Option.bind.simps prod.case)
  have "session_ok tol m lmc rmc
     \<lparr>ss_table = std_table tol m c' c', ss_k = k + 1,
           ss_I1 = Finite half * ss_I1 ss + sum * Finite (ss_h ss * half),
           ss_L1_I1 = Finite half * ss_L1_I1 ss + absum * Finite (ss_h ss * half),
           ss_h = ss_h ss * half,
           ss_err = \<bar>ss_I1 ss - (Finite half * ss_I1 ss + sum * Finite (ss_h ss * half))\<bar>,
           ss_max_left_position = lp,
           ss_max_right_position = rp,
           ss_calls = calls,
           ss_checks = ss_checks ss @
              [(k + 1, Finite half * ss_I1 ss + sum * Finite (ss_h ss * half),
                \<bar>ss_I1 ss - (Finite half * ss_I1 ss + sum * Finite (ss_h ss * half))\<bar>,
                Finite half * ss_L1_I1 ss + absum * Finite (ss_h ss * half))]\<rparr>"
    unfolding session_ok_def
    using c'm kc' lpok rpok safe1 by (intro exI [of _ c']) simp
  with step show ?thesis by blast
qed


lemma refine_step_std_table:
  assumes "session_ok tol m lmc rmc ss"
  shows "length (m_weights (ss_table ss)) = m + 1" "m_max_refinements (ss_table ss) = m"
  using assms by (auto simp: session_ok_def std_table_sel)

lemma refine_loop_std:
  assumes m3: "3 \<le> m" and m60: "m \<le> 60" and ok: "session_ok tol m lmc rmc ss"
  shows "\<exists>exit ss'. refine_loop f lmc rmc ss = Some (exit, ss') \<and> session_ok tol m lmc rmc ss'"
  using ok
proof (induction "max 4 m - ss_k ss" arbitrary: ss)
  case 0
  then have "\<not> (ss_k ss < 4 \<or> (ss_k ss < length (m_weights (ss_table ss))
                         \<and> ss_k ss < m_max_refinements (ss_table ss)))"
    by (auto simp: refine_step_std_table)
  then have "refine_loop f lmc rmc ss = Some (Finished, ss)"
    by (subst refine_loop.simps) auto
  with "0.prems" show ?case by blast
next
  case (Suc n)
  show ?case
  proof (cases "ss_k ss < 4 \<or> (ss_k ss < length (m_weights (ss_table ss))
                         \<and> ss_k ss < m_max_refinements (ss_table ss))")
    case False
    then have "refine_loop f lmc rmc ss = Some (Finished, ss)"
      by (subst refine_loop.simps) auto
    with Suc.prems show ?thesis by blast
  next
    case True
    then have km: "ss_k ss \<le> m" using m3 by (auto simp: refine_step_std_table [OF Suc.prems])
    obtain ss1 where step: "refine_step f lmc rmc ss = Some ss1"
      and ok1: "session_ok tol m lmc rmc ss1"
      using refine_step_std [OF Suc.prems km m60] by blast
    have k1: "ss_k ss1 = ss_k ss + 1" using step by (rule refine_step_frame)
    have n: "n = max 4 m - ss_k ss1" using Suc.hyps(2) k1 by simp
    obtain exit' ss' where rec: "refine_loop f lmc rmc ss1 = Some (exit', ss')"
      and ok': "session_ok tol m lmc rmc ss'"
      using Suc.hyps(1) [OF n ok1] by blast
    have "refine_loop f lmc rmc ss =
            (if \<not> isfinite (ss_I1 ss1) then Some (Raised (ss_I1 ss1), ss1)
             else if ss_k ss1 > 4 \<and> ss_err ss1 \<le> Finite (m_tol (ss_table ss1)) * ss_L1_I1 ss1
               then Some (Finished, ss1)
             else Some (exit', ss'))"
      using True step rec by (subst refine_loop.simps) simp
    with ok1 ok' show ?thesis by (auto split: if_splits)
  qed
qed

lemma complement_le_1:
  assumes "0 \<le> t" shows "abscissa_complement_at_t t \<le> 1"
proof -
  define e where "e = exp (pi * sinh t)"
  have "0 \<le> pi * sinh t" using assms by simp
  then have "1 \<le> e" unfolding e_def by simp
  then have "2 / (e + 1) \<le> 1" by (simp add: field_simps)
  then show ?thesis unfolding complement_eq e_def .
qed

text \<open>
  A call on a table that the constructor built and that earlier calls may have extended:
  it returns, and all its calls of the integrand are safe.
\<close>

lemma integrate_std:
  assumes cm: "c \<le> m" and m3: "3 \<le> m" and m60: "m \<le> 60"
    and pre: "precondition (std_table tol m c c) lmc rmc"
  shows "\<exists>res. integrate (std_table tol m c c) f error L1 lmc rmc = Some res
           \<and> (\<forall>c \<in> set (r_calls res). safe_call lmc rmc c)"
proof -
  let ?s = "std_table tol m c c"
  have a0: "vec_at (m_abscissas ?s) 0 = Some (std_abscissas c 0)"
    by (rule std_table_rows) simp
  from pre have wl: "walk_ends_on_complement (std_abscissas c 0) lmc"
    and wr: "walk_ends_on_complement (std_abscissas c 0) rmc"
    by (simp_all add: precondition_def a0)
  obtain mlp where l: "walk_down (std_abscissas c 0) lmc 7 = Some mlp" "1 \<le> mlp" "mlp \<le> 6"
    "lmc \<le> abscissa_complement_at_t (real mlp)"
    using wl by (rule walk_std)
  obtain mrp where r: "walk_down (std_abscissas c 0) rmc 7 = Some mrp" "1 \<le> mrp" "mrp \<le> 6"
    "rmc \<le> abscissa_complement_at_t (real mrp)"
    using wr by (rule walk_std)
  have sd: "size_dec 8 = 7" by (simp add: size_dec_def)
  have al: "vec_at (std_abscissas c 0) mlp = Some (- abscissa_complement_at_t (real mlp))"
    using l by (simp add: vec_at_def length_std_row0 std_row0_nth)
  have ar: "vec_at (std_abscissas c 0) mrp = Some (- abscissa_complement_at_t (real mrp))"
    using r by (simp add: vec_at_def length_std_row0 std_row0_nth)
  have bl: "boost_assert (- abscissa_complement_at_t (real mlp) < 0) = Some ()"
    using complement_pos [of "real mlp"] by (simp add: boost_assert_def)
  have br: "boost_assert (- abscissa_complement_at_t (real mrp) < 0) = Some ()"
    using complement_pos [of "real mrp"] by (simp add: boost_assert_def)
  have "lmc \<le> 1" using l(4) complement_le_1 [of "real mlp"] by simp
  moreover have "rmc \<le> 1" using r(4) complement_le_1 [of "real mrp"] by simp
  ultimately have safe0: "\<forall>c \<in> set (snd (snd (Finite half_pi * f 0 1, \<bar>Finite half_pi * f 0 1\<bar>,
            [(Centre, 0::real, 1::real)]))). safe_call lmc rmc c"
    by (simp add: safe_call_def)
  obtain I0 L1_I0 calls where
    l0: "level0_loop f ?s 8 mlp mrp 1
           (Finite half_pi * f 0 1, \<bar>Finite half_pi * f 0 1\<bar>, [(Centre, 0, 1)])
         = Some (I0, L1_I0, calls)"
    and safe1: "\<forall>c \<in> set calls. safe_call lmc rmc c"
    using level0_loop_std [OF l(2,3) r(2,3) l(4) r(4) _ safe0, of 1 f tol m c c] by auto
  let ?ss = "\<lparr>ss_table = ?s, ss_k = 1, ss_I1 = I0, ss_L1_I1 = L1_I0,
        ss_h = m_t_max ?s / real (m_inital_row_length ?s), ss_err = Finite 0,
        ss_max_left_position = mlp, ss_max_right_position = mrp,
        ss_calls = calls, ss_checks = []\<rparr>"
  have "session_ok tol m lmc rmc ?ss"
    unfolding session_ok_def using cm l r safe1
    by (intro exI [of _ c]) (simp add: position_ok_def)
  then obtain exit ss' where
    loop: "refine_loop f lmc rmc ?ss = Some (exit, ss')" and ok': "session_ok tol m lmc rmc ss'"
    using refine_loop_std [OF m3 m60] by blast
  have safe': "\<forall>c \<in> set (ss_calls ss'). safe_call lmc rmc c"
    using ok' by (auto simp: session_ok_def)
  have "integrate ?s f error L1 lmc rmc = Some (case exit of
             Raised v \<Rightarrow>
               \<lparr>r_outcome = EvaluationError v, r_error = error, r_L1 = L1,
                r_calls = ss_calls ss', r_checks = ss_checks ss', r_table = ss_table ss'\<rparr>
           | Finished \<Rightarrow>
               \<lparr>r_outcome = Returned (ss_I1 ss'),
                r_error = (case error of None \<Rightarrow> None | Some _ \<Rightarrow> Some (ss_err ss')),
                r_L1 = (case L1 of None \<Rightarrow> None | Some _ \<Rightarrow> Some (ss_L1_I1 ss')),
                r_calls = ss_calls ss', r_checks = ss_checks ss', r_table = ss_table ss'\<rparr>)"
    unfolding integrate_def Let_def call_f_def prod.case
    by (simp only: a0 sd l(1) r(1) al ar bl br length_std_row0 l0 loop Option.bind.simps
          prod.case append_Nil)
  moreover have "\<forall>c \<in> set (r_calls (case exit of
             Raised v \<Rightarrow>
               \<lparr>r_outcome = EvaluationError v, r_error = error, r_L1 = L1,
                r_calls = ss_calls ss', r_checks = ss_checks ss', r_table = ss_table ss'\<rparr>
           | Finished \<Rightarrow>
               \<lparr>r_outcome = Returned (ss_I1 ss'),
                r_error = (case error of None \<Rightarrow> None | Some _ \<Rightarrow> Some (ss_err ss')),
                r_L1 = (case L1 of None \<Rightarrow> None | Some _ \<Rightarrow> Some (ss_L1_I1 ss')),
                r_calls = ss_calls ss', r_checks = ss_checks ss', r_table = ss_table ss'\<rparr>)).
           safe_call lmc rmc c"
    using safe' by (cases exit) simp_all
  ultimately show ?thesis by blast
qed

text \<open>
  The tables that a program can hold: what the constructor built, extended by the
  calls that came after.
\<close>

inductive engine :: "tanh_sinh_detail \<Rightarrow> bool" where
  constructed: "init0 tol max_refinements initial_commit = Some s \<Longrightarrow> engine s"
| extended: "engine s \<Longrightarrow> extend_refinements s = Some s' \<Longrightarrow> engine s'"

lemma init_row_beyond:
  "init_row (m + 1) h [] (std_table tol m j c) = None"
proof (cases "0 < h / 2")
  case True
  show ?thesis
    unfolding init_row_def Let_def init_abscissas_eq [OF True] init_weights_eq [OF True]
    by (simp add: swap_row_def std_table_def del: upt_Suc)
next
  case False
  then have h: "h / 2 \<le> 0" by simp
  show ?thesis
  proof (cases "h / 2 < 7")
    case True
    then have "init_abscissas (h / 2) (h / 2) 7 t_cross ([], 0) = None"
      using h by (subst init_abscissas.simps) simp
    then show ?thesis
      unfolding init_row_def Let_def by (simp add: std_table_def del: upt_Suc)
  next
    case False
    then have "init_abscissas (h / 2) (h / 2) 7 t_cross ([], 0) = Some ([], 0)"
      by (subst init_abscissas.simps) simp
    then show ?thesis
      unfolding init_row_def Let_def by (simp add: swap_row_def std_table_def del: upt_Suc)
  qed
qed

lemma init_rows_beyond:
  assumes "j \<le> m" "m < j + n"
  shows "init_rows n (j + 1) (1 / 2 ^ j) [] (std_table tol m j c) = None"
  using assms
proof (induction n arbitrary: j)
  case 0
  then show ?case by simp
next
  case (Suc n)
  show ?case
  proof (cases "j < m")
    case True
    from init_row_std [OF this, of tol c] Suc.IH [of "j + 1"] Suc.prems True
    show ?thesis by simp
  next
    case False
    then have "j = m" using Suc.prems by simp
    then show ?thesis using init_row_beyond [of m "1 / 2 ^ m" tol m c] by simp
  qed
qed

lemma init0_Some:
  assumes "init0 tol max_refinements initial_commit = Some s"
  shows "initial_commit \<le> max_refinements"
    and "s = std_table tol max_refinements initial_commit initial_commit"
proof -
  show le: "initial_commit \<le> max_refinements"
  proof (rule ccontr)
    assume "\<not> initial_commit \<le> max_refinements"
    then have "init_rows initial_commit (0 + 1) (1 / 2 ^ 0) []
                 (std_table tol max_refinements 0 initial_commit) = None"
      by (intro init_rows_beyond) simp_all
    with assms show False by (simp add: init0_unfold)
  qed
  show "s = std_table tol max_refinements initial_commit initial_commit"
    using assms init0_std [OF le, of tol] by simp
qed

lemma engine_std:
  assumes "engine s"
  shows "\<exists>tol m c. s = std_table tol m c c \<and> c \<le> m"
  using assms
proof (induction rule: engine.induct)
  case (constructed tol max_refinements initial_commit s)
  then show ?case using init0_Some by blast
next
  case (extended s s')
  then obtain tol m c where s: "s = std_table tol m c c" and cm: "c \<le> m" by blast
  from extended(2) have "m_committed_refinements s + 1 < length (m_first_complements s)"
    by (rule extend_refinements_SomeE)
  then have "c < m" unfolding s by (simp add: std_table_def del: upt_Suc)
  with extended(2) extend_refinements_std [of c m tol] s
  have "s' = std_table tol m (c + 1) (c + 1)" by simp
  with \<open>c < m\<close> show ?case by (intro exI [of _ tol] exI [of _ m] exI [of _ "c + 1"]) simp
qed

lemma walk_down_passed:
  "p < length row \<Longrightarrow> walk_down row c p = Some q \<Longrightarrow> q < i \<Longrightarrow> i \<le> p \<Longrightarrow> \<bar>row ! i\<bar> < c"
proof (induction p)
  case 0
  then show ?case by simp
next
  case (Suc p)
  show ?case
  proof (cases "\<bar>row ! Suc p\<bar> < c")
    case True
    with Suc.prems have w: "walk_down row c p = Some q" by (simp add: vec_at_def)
    show ?thesis
    proof (cases "i = Suc p")
      case True
      with \<open>\<bar>row ! Suc p\<bar> < c\<close> show ?thesis by simp
    next
      case False
      with Suc.prems have "i \<le> p" by simp
      with Suc.IH w Suc.prems show ?thesis by simp
    qed
  next
    case False
    with Suc.prems have "q = Suc p" by (simp add: vec_at_def)
    with Suc.prems show ?thesis by simp
  qed
qed

text \<open>
  A threshold above the complement of the last abscissa of row 0 and not above that of
  its first abscissa after the centre makes the walk end on a complement.
\<close>

lemma walk_ends_on_complement_std:
  assumes "abscissa_complement_at_t 7 < c" "c \<le> abscissa_complement_at_t 1"
  shows "walk_ends_on_complement (std_abscissas filled 0) c"
proof -
  let ?row = "std_abscissas filled 0"
  obtain q where w: "walk_down ?row c 7 = Some q" and le: "q \<le> 7"
    and stop: "q = 0 \<or> \<not> \<bar>?row ! q\<bar> < c"
    using walk_down_Some [of 7 ?row c] by (auto simp: length_std_row0)
  have q7: "q \<noteq> 7"
  proof
    assume "q = 7"
    with stop assms(1) complement_pos [of 7] show False by (simp add: std_row0)
  qed
  have q0: "q \<noteq> 0"
  proof
    assume "q = 0"
    then have "\<bar>?row ! 1\<bar> < c"
      using walk_down_passed [of 7 ?row c q 1] w by (simp add: length_std_row0)
    with assms(2) complement_pos [of 1] show False by (simp add: std_row0)
  qed
  have r: "1 \<le> q" "q \<le> 6" using q0 q7 le by simp_all
  have "?row ! q < 0" using complement_pos [of "real q"] by (simp add: std_row0_nth [OF r])
  then show ?thesis
    using w r by (simp add: walk_ends_on_complement_def length_std_row0 size_dec_def vec_at_def)
qed

lemma precondition_std:
  assumes "abscissa_complement_at_t 7 < lmc" "lmc \<le> abscissa_complement_at_t 1"
    and "abscissa_complement_at_t 7 < rmc" "rmc \<le> abscissa_complement_at_t 1"
  shows "precondition (std_table tol m c c) lmc rmc"
  unfolding precondition_def
  using walk_ends_on_complement_std [OF assms(1,2)] walk_ends_on_complement_std [OF assms(3,4)]
  by (simp add: std_table_rows)

text \<open>
  C1. Take a table that the constructor built and that calls may have extended, with
  \<^verbatim>\<open>max_refinements\<close> between 3 and 60, and thresholds for which the two assertions after
  the walks over row 0 hold. Then \<^verbatim>\<open>integrate\<close> returns, and every call of the integrand,
  at level 0 and at every later level, passes a complement whose absolute value is at
  least the threshold of its side (both thresholds for the call at the centre). The
  thresholds \<open>1e-3\<close> satisfy the precondition. The precondition is the one that the source
  asserts: the stored value on which each walk ends is negative. (The last entry of row 0
  is not negative, see C4, and every walk that moves passes over it.)
\<close>

theorem integrand_never_called_inside_thresholds:
  assumes "engine s" and "3 \<le> m_max_refinements s" and "m_max_refinements s \<le> 60"
    and "precondition s left_min_complement right_min_complement"
  shows "(\<exists>res. integrate s f error L1 left_min_complement right_min_complement = Some res
            \<and> (\<forall>(sd, x, xc) \<in> set (r_calls res).
                  (sd \<noteq> Left \<longrightarrow> right_min_complement \<le> \<bar>xc\<bar>)
                  \<and> (sd \<noteq> Right \<longrightarrow> left_min_complement \<le> \<bar>xc\<bar>)))
         \<and> precondition s (1 / 1000) (1 / 1000)"
proof -
  from assms(1) obtain tol m c where s: "s = std_table tol m c c" and cm: "c \<le> m"
    using engine_std by blast
  have m: "3 \<le> m" "m \<le> 60" using assms(2,3) unfolding s by (simp_all add: std_table_sel)
  obtain res where
    "integrate s f error L1 left_min_complement right_min_complement = Some res"
    "\<forall>c \<in> set (r_calls res). safe_call left_min_complement right_min_complement c"
    using integrate_std [OF cm m, of tol left_min_complement right_min_complement f error L1]
      assms(4) unfolding s by blast
  then have a: "\<exists>res. integrate s f error L1 left_min_complement right_min_complement = Some res
            \<and> (\<forall>(sd, x, xc) \<in> set (r_calls res).
                  (sd \<noteq> Left \<longrightarrow> right_min_complement \<le> \<bar>xc\<bar>)
                  \<and> (sd \<noteq> Right \<longrightarrow> left_min_complement \<le> \<bar>xc\<bar>))"
    unfolding safe_call_def by blast
  have b: "precondition s (1 / 1000) (1 / 1000)"
    unfolding s using complement_7_less complement_1_ge by (intro precondition_std) simp_all
  from a b show ?thesis ..
qed

section \<open>Two integrands and an engine\<close>

definition example_engine :: tanh_sinh_detail where
  "example_engine = the (init0 (1 / 1000000) 15 4)"

definition constant_one :: integrand where
  "constant_one x xc = Finite 1"

definition always_nan :: integrand where
  "always_nan x xc = NaN"

lemma example_engine_init: "init0 (1 / 1000000) 15 4 = Some example_engine"
  using init0_std [of 4 15 "1 / 1000000"] by (simp add: example_engine_def)

lemma example_engine_facts:
  "engine example_engine" "m_max_refinements example_engine = 15"
  "precondition example_engine (1 / 1000) (1 / 1000)"
proof -
  show e: "engine example_engine" using example_engine_init by (rule engine.constructed)
  have s: "example_engine = std_table (1 / 1000000) 15 4 4"
    using example_engine_init by (rule init0_Some)
  show "m_max_refinements example_engine = 15" unfolding s by (simp add: std_table_sel)
  show "precondition example_engine (1 / 1000) (1 / 1000)"
    unfolding s using complement_7_less complement_1_ge by (intro precondition_std) simp_all
qed

lemma example_returns:
  "\<exists>res. integrate example_engine f error L1 (1 / 1000) (1 / 1000) = Some res"
proof -
  have s: "example_engine = std_table (1 / 1000000) 15 4 4"
    using example_engine_init by (rule init0_Some)
  show ?thesis
    using integrate_std [of 4 15 "1 / 1000000" "1 / 1000" "1 / 1000" f error L1]
      example_engine_facts(3) unfolding s by auto
qed

theorem integrand_never_called_inside_thresholds_witness:
  "engine example_engine \<and> 3 \<le> m_max_refinements example_engine
   \<and> m_max_refinements example_engine \<le> 60
   \<and> precondition example_engine (1 / 1000) (1 / 1000)
   \<and> (\<exists>res. integrate example_engine constant_one None None (1 / 1000) (1 / 1000) = Some res
          \<and> (\<forall>(sd, x, xc) \<in> set (r_calls res).
                (sd \<noteq> Left \<longrightarrow> 1 / 1000 \<le> \<bar>xc\<bar>) \<and> (sd \<noteq> Right \<longrightarrow> 1 / 1000 \<le> \<bar>xc\<bar>)))"
proof -
  have m: "3 \<le> m_max_refinements example_engine" "m_max_refinements example_engine \<le> 60"
    by (simp_all add: example_engine_facts(2))
  from integrand_never_called_inside_thresholds
         [OF example_engine_facts(1) m example_engine_facts(3), of constant_one None None]
    example_engine_facts(1,3) m
  show ?thesis by blast
qed

section \<open>Finite and not finite estimates\<close>


lemma nan_arith: "NaN + a = NaN" "Finite r * NaN = NaN"
  by (cases a) simp_all




lemma level0_point_nan:
  assumes "level0_point f s l r i acc = Some acc'" "fst acc = NaN"
  shows "fst acc' = NaN"
  using assms unfolding level0_point_def call_f_def Let_def
  by (auto split: Option.bind_splits prod.splits if_splits simp: nan_arith)


lemma level0_loop_nan:
  assumes "level0_loop f s n l r i acc = Some acc'" "fst acc = NaN"
  shows "fst acc' = NaN"
  using assms
proof (induction f s n l r i acc rule: level0_loop.induct)
  case (1 f s size0 l r i acc)
  show ?case
  proof (cases "i < size0 \<and> \<not> (i > r \<and> i > l)")
    case False
    with "1.prems" show ?thesis by (subst (asm) level0_loop.simps) (auto split: if_splits)
  next
    case True
    with "1.prems"(1) obtain acc1 where p: "level0_point f s l r i acc = Some acc1"
      and rec: "level0_loop f s size0 l r (i + 1) acc1 = Some acc'"
      by (subst (asm) level0_loop.simps) (auto split: option.splits)
    have "fst acc1 = NaN" using p "1.prems"(2) by (rule level0_point_nan)
    with "1.IH" [OF _ _ p rec] True show ?thesis by auto
  qed
qed




lemma refine_step_nan:
  assumes "refine_step f lmc rmc ss = Some ss'" "ss_I1 ss = NaN"
  shows "ss_I1 ss' = NaN"
  using assms(1) by (rule refine_step_SomeE) (simp add: assms(2) nan_arith)



lemma refine_loop_nan:
  assumes "refine_loop f lmc rmc ss = Some (exit, ss')" "ss_I1 ss = NaN" "ss_k ss < 4"
  shows "exit = Raised NaN \<and> length (ss_checks ss') = length (ss_checks ss) + 1"
proof -
  from assms(1,3) obtain ss1 where
    step: "refine_step f lmc rmc ss = Some ss1"
    and rest: "(if \<not> isfinite (ss_I1 ss1) then Some (Raised (ss_I1 ss1), ss1)
             else if ss_k ss1 > 4 \<and> ss_err ss1 \<le> Finite (m_tol (ss_table ss1)) * ss_L1_I1 ss1
               then Some (Finished, ss1)
             else refine_loop f lmc rmc ss1) = Some (exit, ss')"
    by (subst (asm) refine_loop.simps) (simp split: option.splits)
  have nan: "ss_I1 ss1 = NaN" using step assms(2) by (rule refine_step_nan)
  with rest have "exit = Raised NaN" "ss' = ss1" by simp_all
  moreover have "ss_checks ss1 = ss_checks ss @ [last_check ss1]"
    using step by (rule refine_step_checks)
  ultimately show ?thesis by simp
qed


lemma integrate_nan:
  assumes "integrate s f error L1 lmc rmc = Some res" "f 0 1 = NaN"
  shows "length (r_checks res) = 1" "r_outcome res = EvaluationError NaN"
proof -
  from assms(1) obtain abscissas0 mlp mrp I0 L1_I0 calls exit ss where
    "vec_at (m_abscissas s) 0 = Some abscissas0"
    "walk_down abscissas0 lmc (size_dec (length abscissas0)) = Some mlp"
    "walk_down abscissas0 rmc (size_dec (length abscissas0)) = Some mrp"
    "mlp < length abscissas0" "abscissas0 ! mlp < 0"
    "mrp < length abscissas0" "abscissas0 ! mrp < 0"
    and l0: "level0_loop f s (length abscissas0) mlp mrp 1
       (Finite half_pi * f 0 1, \<bar>Finite half_pi * f 0 1\<bar>, [(Centre, 0, 1)])
      = Some (I0, L1_I0, calls)"
    and loop: "refine_loop f lmc rmc
       \<lparr>ss_table = s, ss_k = 1, ss_I1 = I0, ss_L1_I1 = L1_I0,
        ss_h = m_t_max s / real (m_inital_row_length s), ss_err = Finite 0,
        ss_max_left_position = mlp, ss_max_right_position = mrp,
        ss_calls = calls, ss_checks = []\<rparr> = Some (exit, ss)"
    and res: "res = (case exit of
             Raised v \<Rightarrow>
               \<lparr>r_outcome = EvaluationError v, r_error = error, r_L1 = L1,
                r_calls = ss_calls ss, r_checks = ss_checks ss, r_table = ss_table ss\<rparr>
           | Finished \<Rightarrow>
               \<lparr>r_outcome = Returned (ss_I1 ss),
                r_error = (case error of None \<Rightarrow> None | Some _ \<Rightarrow> Some (ss_err ss)),
                r_L1 = (case L1 of None \<Rightarrow> None | Some _ \<Rightarrow> Some (ss_L1_I1 ss)),
                r_calls = ss_calls ss, r_checks = ss_checks ss, r_table = ss_table ss\<rparr>)"
    by (rule integrate_SomeE)
  have "fst (I0, L1_I0, calls) = NaN"
    using l0 by (rule level0_loop_nan) (simp add: assms(2))
  then have "I0 = NaN" by simp
  with refine_loop_nan [OF loop] have "exit = Raised NaN" "length (ss_checks ss) = 1" by simp_all
  with res show "length (r_checks res) = 1" "r_outcome res = EvaluationError NaN" by simp_all
qed


section \<open>The theorems on two calls\<close>

definition nan_result :: integrate_result where
  "nan_result = the (integrate example_engine always_nan (Some (Finite 0)) (Some (Finite 0))
                       (1 / 1000) (1 / 1000))"

definition one_result :: integrate_result where
  "one_result = the (integrate example_engine constant_one (Some (Finite 0)) (Some (Finite 0))
                       (1 / 1000) (1 / 1000))"

lemma nan_result:
  "integrate example_engine always_nan (Some (Finite 0)) (Some (Finite 0)) (1 / 1000) (1 / 1000)
   = Some nan_result"
  using example_returns [of always_nan "Some (Finite 0)" "Some (Finite 0)"]
  by (auto simp: nan_result_def)

lemma one_result:
  "integrate example_engine constant_one (Some (Finite 0)) (Some (Finite 0)) (1 / 1000) (1 / 1000)
   = Some one_result"
  using example_returns [of constant_one "Some (Finite 0)" "Some (Finite 0)"]
  by (auto simp: one_result_def)


theorem output_slots_written_on_return_only_witness:
  "integrate example_engine always_nan (Some (Finite 0)) (Some (Finite 0)) (1 / 1000) (1 / 1000)
     = Some nan_result
   \<and> r_outcome nan_result = EvaluationError NaN
   \<and> r_error nan_result = Some (Finite 0) \<and> r_L1 nan_result = Some (Finite 0)"
proof -
  have "r_outcome nan_result = EvaluationError NaN"
    using nan_result by (rule integrate_nan) (simp add: always_nan_def)
  with output_slots_written_on_return_only [OF nan_result] nan_result
  show ?thesis by simp
qed



section \<open>What an extension appends\<close>

lemma level_points_odd:
  "level_points row t_max
   = map (\<lambda>i. real (2 * i + 1) * (1 / 2 ^ row)) [0..<n_points (1 / 2 ^ row) (1 / 2 ^ row) t_max]"
  unfolding level_points_def points_def by (simp add: algebra_simps)

lemma less_n_level_points:
  "i < n_points (1 / 2 ^ row) (1 / 2 ^ row) t_max \<longleftrightarrow> real (2 * i + 1) * (1 / 2 ^ row) < t_max"
proof -
  have h: "(0::real) < 1 / 2 ^ row" by simp
  show ?thesis unfolding less_n_points [OF h] by (simp add: algebra_simps)
qed

text \<open>
  C6. When the three vectors have a row \<^verbatim>\<open>m_committed_refinements + 1\<close>, the extension
  returns, and with \<open>h = 1 / 2 ^ row\<close> there is a number \<open>n\<close> of points such that \<open>i < n\<close> exactly
  when \<open>(2i + 1) h < t_max\<close>; the abscissa row gets the \<open>n\<close> entries \<open>abscissa((2i + 1) h)\<close>
  or \<open>-complement((2i + 1) h)\<close>, according to \<open>(2i + 1) h < t_crossover\<close>, in this order, the
  weight row gets \<open>weight((2i + 1) h)\<close> in the same order, so that rows of equal length
  stay of equal length, and the first complement index of the row is the number of the
  \<open>i < n\<close> with \<open>(2i + 1) h < t_crossover\<close>.
\<close>

theorem extension_appends_odd_multiples:
  assumes "m_committed_refinements s + 1 < length (m_abscissas s)"
    and "m_committed_refinements s + 1 < length (m_first_complements s)"
    and "m_committed_refinements s + 1 < length (m_weights s)"
  shows "\<exists>s' n. extend_refinements s = Some s'
    \<and> m_committed_refinements s' = m_committed_refinements s + 1
    \<and> (\<forall>i. i < n \<longleftrightarrow>
          real (2 * i + 1) * (1 / 2 ^ (m_committed_refinements s + 1)) < m_t_max s)
    \<and> m_abscissas s' ! (m_committed_refinements s + 1)
        = m_abscissas s ! (m_committed_refinements s + 1)
          @ map (\<lambda>i. if real (2 * i + 1) * (1 / 2 ^ (m_committed_refinements s + 1))
                          < m_t_crossover s
                       then abscissa_at_t
                              (real (2 * i + 1) * (1 / 2 ^ (m_committed_refinements s + 1)))
                       else - abscissa_complement_at_t
                              (real (2 * i + 1) * (1 / 2 ^ (m_committed_refinements s + 1))))
              [0..<n]
    \<and> m_weights s' ! (m_committed_refinements s + 1)
        = m_weights s ! (m_committed_refinements s + 1)
          @ map (\<lambda>i. weight_at_t (real (2 * i + 1) * (1 / 2 ^ (m_committed_refinements s + 1))))
              [0..<n]
    \<and> m_first_complements s' ! (m_committed_refinements s + 1)
        = length (filter (\<lambda>i. real (2 * i + 1) * (1 / 2 ^ (m_committed_refinements s + 1))
                             < m_t_crossover s) [0..<n])
    \<and> length (m_abscissas s' ! (m_committed_refinements s + 1))
          - length (m_abscissas s ! (m_committed_refinements s + 1)) = n
    \<and> length (m_weights s' ! (m_committed_refinements s + 1))
          - length (m_weights s ! (m_committed_refinements s + 1)) = n"
proof -
  define row where "row = m_committed_refinements s + 1"
  define n where "n = n_points (1 / 2 ^ row) (1 / 2 ^ row) (m_t_max s)"
  define s' where "s' = s\<lparr>m_committed_refinements := row,
            m_abscissas := (m_abscissas s)[row := m_abscissas s ! row
               @ map (stored_abscissa (m_t_crossover s)) (level_points row (m_t_max s))],
            m_first_complements := (m_first_complements s)[row :=
               length (filter (\<lambda>pos. pos < m_t_crossover s) (level_points row (m_t_max s)))],
            m_weights := (m_weights s)[row := m_weights s ! row
               @ map weight_at_t (level_points row (m_t_max s))]\<rparr>"
  have ext: "extend_refinements s = Some s'"
    unfolding s'_def row_def using assms by (rule extend_refinements_eq)
  have lp: "level_points row (m_t_max s) = map (\<lambda>i. real (2 * i + 1) * (1 / 2 ^ row)) [0..<n]"
    unfolding n_def by (rule level_points_odd)
  have n: "\<forall>i. i < n \<longleftrightarrow> real (2 * i + 1) * (1 / 2 ^ row) < m_t_max s"
    unfolding n_def by (simp only: less_n_level_points simp_thms)
  have a: "m_abscissas s' ! row = m_abscissas s ! row
          @ map (\<lambda>i. if real (2 * i + 1) * (1 / 2 ^ row) < m_t_crossover s
                       then abscissa_at_t (real (2 * i + 1) * (1 / 2 ^ row))
                       else - abscissa_complement_at_t (real (2 * i + 1) * (1 / 2 ^ row)))
              [0..<n]"
    using assms(1) unfolding s'_def lp row_def [symmetric]
    by (simp add: stored_abscissa_def comp_def)
  have w: "m_weights s' ! row = m_weights s ! row
          @ map (\<lambda>i. weight_at_t (real (2 * i + 1) * (1 / 2 ^ row))) [0..<n]"
    using assms(3) unfolding s'_def lp row_def [symmetric] by (simp add: comp_def)
  have f: "m_first_complements s' ! row
        = length (filter (\<lambda>i. real (2 * i + 1) * (1 / 2 ^ row) < m_t_crossover s) [0..<n])"
    using assms(2) unfolding s'_def lp row_def [symmetric]
    by (simp add: filter_map comp_def)
  have c: "m_committed_refinements s' = row" by (simp add: s'_def)
  have la: "length (m_abscissas s' ! row) - length (m_abscissas s ! row) = n"
    unfolding a by simp
  have lw: "length (m_weights s' ! row) - length (m_weights s ! row) = n"
    unfolding w by simp
  show ?thesis
    unfolding row_def [symmetric]
    using ext c n a w f la lw by blast
qed


lemma example_engine_std: "example_engine = std_table (1 / 1000000) 15 4 4"
  using example_engine_init by (rule init0_Some)

lemma std_table_lengths:
  "length (m_abscissas (std_table tol m filled c)) = m + 1"
  "length (m_first_complements (std_table tol m filled c)) = m + 1"
  by (simp_all add: std_table_def del: upt_Suc)

theorem extension_appends_odd_multiples_witness:
  "m_committed_refinements example_engine + 1 < length (m_abscissas example_engine)
   \<and> m_committed_refinements example_engine + 1 < length (m_first_complements example_engine)
   \<and> m_committed_refinements example_engine + 1 < length (m_weights example_engine)
   \<and> (\<exists>s'. extend_refinements example_engine = Some s'
         \<and> m_committed_refinements s' = 5
         \<and> length (m_abscissas s' ! 5) = length (m_weights s' ! 5))"
proof -
  have h: "m_committed_refinements example_engine + 1 < length (m_abscissas example_engine)"
    "m_committed_refinements example_engine + 1 < length (m_first_complements example_engine)"
    "m_committed_refinements example_engine + 1 < length (m_weights example_engine)"
    unfolding example_engine_std by (simp_all add: std_table_sel std_table_lengths)
  have c: "m_committed_refinements example_engine + 1 = 5"
    unfolding example_engine_std by (simp add: std_table_sel)
  have e: "m_abscissas example_engine ! 5 = []" "m_weights example_engine ! 5 = []"
    unfolding example_engine_std
    by (simp_all add: std_table_def std_abscissas_def std_weights_def del: upt_Suc)
  from extension_appends_odd_multiples [OF h] obtain s' n where
    "extend_refinements example_engine = Some s'" "m_committed_refinements s' = 5"
    "length (m_abscissas s' ! 5) - length (m_abscissas example_engine ! 5) = n"
    "length (m_weights s' ! 5) - length (m_weights example_engine ! 5) = n"
    unfolding c by blast
  then have "extend_refinements example_engine = Some s' \<and> m_committed_refinements s' = 5
         \<and> length (m_abscissas s' ! 5) = length (m_weights s' ! 5)"
    unfolding e by simp
  with h show ?thesis by blast
qed

section \<open>Eager and lazy rows\<close>

text \<open>\<open>n\<close> calls of \<^verbatim>\<open>extend_refinements\<close>, one after the other.\<close>

fun extend_times :: "nat \<Rightarrow> tanh_sinh_detail \<Rightarrow> tanh_sinh_detail option" where
  "extend_times 0 s = Some s"
| "extend_times (Suc n) s =
     (case extend_refinements s of None \<Rightarrow> None | Some s' \<Rightarrow> extend_times n s')"

lemma extend_times_std:
  "c + j \<le> m \<Longrightarrow> extend_times j (std_table tol m c c) = Some (std_table tol m (c + j) (c + j))"
proof (induction j arbitrary: c)
  case 0
  show ?case by simp
next
  case (Suc j)
  then have "c < m" by simp
  from extend_refinements_std [OF this, of tol] Suc.IH [of "c + 1"] Suc.prems
  show ?case by simp
qed

text \<open>
  C5. Under the standard strategy, an engine constructed with \<^verbatim>\<open>initial_commit\<close> = \<open>c\<close> and
  then extended \<open>j\<close> times holds the same table as an engine constructed with
  \<^verbatim>\<open>initial_commit\<close> = \<open>c + j\<close>: for every level up to \<open>c + j\<close> the abscissa row, the weight row
  and the first complement index that the extension computed are those that the loop of
  the constructor computes, and so is the rest of the state.
\<close>

theorem lazy_rows_equal_eager_rows:
  assumes "c + j \<le> max_refinements"
  shows "\<exists>eager first lazy.
           init0 tol max_refinements (c + j) = Some eager
           \<and> init0 tol max_refinements c = Some first
           \<and> extend_times j first = Some lazy
           \<and> lazy = eager
           \<and> (\<forall>k. m_abscissas lazy ! k = m_abscissas eager ! k
                  \<and> m_weights lazy ! k = m_weights eager ! k
                  \<and> m_first_complements lazy ! k = m_first_complements eager ! k)"
proof -
  have "init0 tol max_refinements (c + j)
        = Some (std_table tol max_refinements (c + j) (c + j))"
    using assms by (rule init0_std)
  moreover have "init0 tol max_refinements c = Some (std_table tol max_refinements c c)"
    using assms by (intro init0_std) simp
  moreover have "extend_times j (std_table tol max_refinements c c)
                 = Some (std_table tol max_refinements (c + j) (c + j))"
    using assms by (rule extend_times_std)
  ultimately show ?thesis by simp
qed

theorem lazy_rows_equal_eager_rows_witness:
  "(0::nat) + 4 \<le> 15
   \<and> init0 (1 / 1000000) 15 (0 + 4) = Some example_engine
   \<and> (\<exists>first. init0 (1 / 1000000) 15 0 = Some first
         \<and> extend_times 4 first = Some example_engine)"
proof -
  have le: "(0::nat) + 4 \<le> 15" by simp
  from lazy_rows_equal_eager_rows [OF le, of "1 / 1000000"] example_engine_init le
  show ?thesis by auto
qed


section \<open>Committed rows stay as they are\<close>

lemma push_back_row_other:
  "push_back_row rows row v = Some rows' \<Longrightarrow> k \<noteq> row \<Longrightarrow> rows' ! k = rows ! k"
  by (auto simp: push_back_row_def split: if_splits)

lemma extend_abscissas_other:
  "extend_abscissas pos h t_max t_crossover row acc = Some acc' \<Longrightarrow> k \<noteq> row
   \<Longrightarrow> fst acc' ! k = fst acc ! k"
proof (induction pos h t_max t_crossover row acc arbitrary: acc' rule: extend_abscissas.induct)
  case (1 pos h t_max t_crossover row abscissas first_complement)
  show ?case
  proof (cases "pos < t_max")
    case True
    with "1.prems" have h: "\<not> h \<le> 0"
      by (subst (asm) extend_abscissas.simps) (auto split: if_splits)
    from "1.prems" True h obtain a2 where
      pb: "push_back_row abscissas row
            (if pos < t_crossover then abscissa_at_t pos else - abscissa_complement_at_t pos) = Some a2"
      and rec: "extend_abscissas (pos + 2 * h) h t_max t_crossover row
          (a2, if pos < t_crossover then first_complement + 1 else first_complement) = Some acc'"
      by (subst (asm) extend_abscissas.simps) (simp split: option.splits)
    have "fst acc' ! k = a2 ! k"
      using "1.IH" [OF True h pb rec "1.prems"(2)] by simp
    then show ?thesis using push_back_row_other [OF pb "1.prems"(2)] by simp
  next
    case False
    with "1.prems" show ?thesis
      by (subst (asm) extend_abscissas.simps) simp
  qed
qed

lemma extend_weights_other:
  "extend_weights pos h t_max row weights = Some weights' \<Longrightarrow> k \<noteq> row
   \<Longrightarrow> weights' ! k = weights ! k"
proof (induction pos h t_max row weights rule: extend_weights.induct)
  case (1 pos h t_max row weights)
  show ?case
  proof (cases "pos < t_max")
    case True
    with "1.prems" have h: "\<not> h \<le> 0"
      by (subst (asm) extend_weights.simps) (auto split: if_splits)
    from "1.prems" True h obtain w2 where
      pb: "push_back_row weights row (weight_at_t pos) = Some w2"
      and rec: "extend_weights (pos + 2 * h) h t_max row w2 = Some weights'"
      by (subst (asm) extend_weights.simps) (simp split: option.splits)
    have "weights' ! k = w2 ! k"
      using "1.IH" [OF True h pb rec "1.prems"(2)] by simp
    then show ?thesis using push_back_row_other [OF pb "1.prems"(2)] by simp
  next
    case False
    with "1.prems" show ?thesis
      by (subst (asm) extend_weights.simps) simp
  qed
qed

text \<open>The rows 0, ..., \<open>n\<close> of two tables are the same, and so are the two constants.\<close>

definition same_rows :: "nat \<Rightarrow> tanh_sinh_detail \<Rightarrow> tanh_sinh_detail \<Rightarrow> bool" where
  "same_rows n s s' =
     (m_t_max s' = m_t_max s \<and> m_t_crossover s' = m_t_crossover s
      \<and> (\<forall>k \<le> n. m_abscissas s' ! k = m_abscissas s ! k
                  \<and> m_weights s' ! k = m_weights s ! k
                  \<and> m_first_complements s' ! k = m_first_complements s ! k))"

lemma same_rows_refl: "same_rows n s s"
  by (simp add: same_rows_def)

lemma same_rows_trans:
  "same_rows n s s' \<Longrightarrow> same_rows n' s' s'' \<Longrightarrow> n \<le> n' \<Longrightarrow> same_rows n s s''"
  by (auto simp: same_rows_def)

lemma same_rows_sym: "same_rows n s s' \<Longrightarrow> same_rows n s' s"
  by (auto simp: same_rows_def)

lemma same_rows_mono: "same_rows n s s' \<Longrightarrow> n' \<le> n \<Longrightarrow> same_rows n' s s'"
  by (auto simp: same_rows_def)

lemma extend_refinements_other:
  assumes "extend_refinements s = Some s'" "k \<noteq> m_committed_refinements s + 1"
  shows "m_abscissas s' ! k = m_abscissas s ! k"
    and "m_weights s' ! k = m_weights s ! k"
    and "m_first_complements s' ! k = m_first_complements s ! k"
proof -
  from assms(1) obtain abscissas fc weights where
    a: "extend_abscissas (ldexp 1 (- int (m_committed_refinements s + 1)))
        (ldexp 1 (- int (m_committed_refinements s + 1))) (m_t_max s) (m_t_crossover s)
        (m_committed_refinements s + 1) (m_abscissas s, 0) = Some (abscissas, fc)"
    and "m_committed_refinements s + 1 < length (m_first_complements s)"
    and w: "extend_weights (ldexp 1 (- int (m_committed_refinements s + 1)))
        (ldexp 1 (- int (m_committed_refinements s + 1))) (m_t_max s)
        (m_committed_refinements s + 1) (m_weights s) = Some weights"
    and s': "s' = s\<lparr>m_committed_refinements := m_committed_refinements s + 1,
             m_abscissas := abscissas,
             m_first_complements := (m_first_complements s)[m_committed_refinements s + 1 := fc],
             m_weights := weights\<rparr>"
    by (rule extend_refinements_SomeE)
  show "m_abscissas s' ! k = m_abscissas s ! k"
    using extend_abscissas_other [OF a assms(2)] s' by simp
  show "m_weights s' ! k = m_weights s ! k"
    using extend_weights_other [OF w assms(2)] s' by simp
  show "m_first_complements s' ! k = m_first_complements s ! k"
    using assms(2) s' by simp
qed

lemma extend_refinements_same_rows:
  assumes "extend_refinements s = Some s'"
  shows "same_rows (m_committed_refinements s) s s'"
  unfolding same_rows_def
  using extend_refinements_other [OF assms] extend_refinements_frame(6,7) [OF assms]
  by simp

text \<open>A table reached from another by calls of \<^verbatim>\<open>extend_refinements\<close>.\<close>

inductive extends :: "tanh_sinh_detail \<Rightarrow> tanh_sinh_detail \<Rightarrow> bool" where
  same: "extends s s"
| more: "extend_refinements s = Some s' \<Longrightarrow> extends s' s'' \<Longrightarrow> extends s s''"

lemma extends_trans: "extends s s' \<Longrightarrow> extends s' s'' \<Longrightarrow> extends s s''"
  by (induction rule: extends.induct) (auto intro: extends.intros)

lemma extends_step: "extend_refinements s = Some s' \<Longrightarrow> extends s s'"
  by (auto intro: extends.intros)

lemma extends_same_rows:
  "extends s s' \<Longrightarrow>
   same_rows (m_committed_refinements s) s s'
   \<and> m_committed_refinements s \<le> m_committed_refinements s'"
proof (induction rule: extends.induct)
  case (same s)
  show ?case by (simp add: same_rows_refl)
next
  case (more s s' s'')
  have c: "m_committed_refinements s' = m_committed_refinements s + 1"
    using more(1) by (rule extend_refinements_frame)
  have "same_rows (m_committed_refinements s) s s'"
    using more(1) by (rule extend_refinements_same_rows)
  moreover have "same_rows (m_committed_refinements s') s' s''" using more.IH by simp
  ultimately have "same_rows (m_committed_refinements s) s s''"
    by (rule same_rows_trans) (simp add: c)
  with more.IH c show ?case by simp
qed

lemma extends_linear:
  "extends s a \<Longrightarrow> extends s b \<Longrightarrow> extends a b \<or> extends b a"
proof (induction arbitrary: b rule: extends.induct)
  case (same s)
  then show ?case by simp
next
  case (more s s' s'')
  from more.prems show ?case
  proof (cases rule: extends.cases)
    case same
    with more.hyps show ?thesis by (auto intro: extends.intros)
  next
    case (more t)
    with more.hyps(1) have "t = s'" by simp
    with more show ?thesis using more.IH by simp
  qed
qed

lemma get_abscissa_row_extends: "get_abscissa_row n s = Some (r, s') \<Longrightarrow> extends s s'"
  by (auto elim!: get_abscissa_row_SomeE intro: extends.intros)

lemma get_weight_row_extends: "get_weight_row n s = Some (r, s') \<Longrightarrow> extends s s'"
  by (auto elim!: get_weight_row_SomeE intro: extends.intros)

lemma get_first_complement_index_extends:
  "get_first_complement_index n s = Some (r, s') \<Longrightarrow> extends s s'"
  by (auto elim!: get_first_complement_index_SomeE intro: extends.intros)

lemma refine_step_extends:
  assumes "refine_step f lmc rmc ss = Some ss'"
  shows "extends (ss_table ss) (ss_table ss')"
proof -
  from assms obtain abscissa_row s1 weight_row s2 first_complement_index s3 where
    a: "get_abscissa_row (ss_k ss) (ss_table ss) = Some (abscissa_row, s1)"
    and w: "get_weight_row (ss_k ss) s1 = Some (weight_row, s2)"
    and c: "get_first_complement_index (ss_k ss) s2 = Some (first_complement_index, s3)"
    and t: "ss_table ss' = s3"
    by (rule refine_step_SomeE) simp
  from get_abscissa_row_extends [OF a] get_weight_row_extends [OF w]
    get_first_complement_index_extends [OF c] t
  show ?thesis by (auto intro: extends_trans)
qed

lemma refine_loop_extends:
  assumes "refine_loop f lmc rmc ss = Some (exit, ss')"
  shows "extends (ss_table ss) (ss_table ss')"
  using assms
proof (induction f lmc rmc ss rule: refine_loop.induct)
  case (1 f lmc rmc ss)
  show ?case
  proof (cases "ss_k ss < 4 \<or> (ss_k ss < length (m_weights (ss_table ss))
                         \<and> ss_k ss < m_max_refinements (ss_table ss))")
    case False
    with "1.prems" have "ss' = ss" by (subst (asm) refine_loop.simps) auto
    then show ?thesis by (simp add: extends.same)
  next
    case True
    with "1.prems" obtain ss1 where
      step: "refine_step f lmc rmc ss = Some ss1"
      and rest: "(if \<not> isfinite (ss_I1 ss1) then Some (Raised (ss_I1 ss1), ss1)
             else if ss_k ss1 > 4 \<and> ss_err ss1 \<le> Finite (m_tol (ss_table ss1)) * ss_L1_I1 ss1
               then Some (Finished, ss1)
             else refine_loop f lmc rmc ss1) = Some (exit, ss')"
      by (subst (asm) refine_loop.simps) (simp split: option.splits)
    have e1: "extends (ss_table ss) (ss_table ss1)" using step by (rule refine_step_extends)
    show ?thesis
    proof (cases "\<not> isfinite (ss_I1 ss1)
        \<or> (ss_k ss1 > 4 \<and> ss_err ss1 \<le> Finite (m_tol (ss_table ss1)) * ss_L1_I1 ss1)")
      case True
      with rest have "ss' = ss1" by (auto split: if_splits)
      with e1 show ?thesis by simp
    next
      case False
      with rest have rec: "refine_loop f lmc rmc ss1 = Some (exit, ss')"
        by (auto split: if_splits)
      from False have f1: "\<not> \<not> isfinite (ss_I1 ss1)"
        and f2: "\<not> (4 < ss_k ss1 \<and> ss_err ss1 \<le> Finite (m_tol (ss_table ss1)) * ss_L1_I1 ss1)"
        by auto
      from "1.IH" [OF True step f1 f2 rec] e1 show ?thesis by (rule extends_trans [rotated])
    qed
  qed
qed

lemma integrate_extends:
  assumes "integrate s f error L1 lmc rmc = Some res"
  shows "extends s (r_table res)"
proof -
  from assms obtain abscissas0 mlp mrp I0 L1_I0 calls exit ss where
    "vec_at (m_abscissas s) 0 = Some abscissas0"
    "walk_down abscissas0 lmc (size_dec (length abscissas0)) = Some mlp"
    "walk_down abscissas0 rmc (size_dec (length abscissas0)) = Some mrp"
    "mlp < length abscissas0" "abscissas0 ! mlp < 0"
    "mrp < length abscissas0" "abscissas0 ! mrp < 0"
    "level0_loop f s (length abscissas0) mlp mrp 1
       (Finite half_pi * f 0 1, \<bar>Finite half_pi * f 0 1\<bar>, [(Centre, 0, 1)])
      = Some (I0, L1_I0, calls)"
    and loop: "refine_loop f lmc rmc
       \<lparr>ss_table = s, ss_k = 1, ss_I1 = I0, ss_L1_I1 = L1_I0,
        ss_h = m_t_max s / real (m_inital_row_length s), ss_err = Finite 0,
        ss_max_left_position = mlp, ss_max_right_position = mrp,
        ss_calls = calls, ss_checks = []\<rparr> = Some (exit, ss)"
    and res: "res = (case exit of
             Raised v \<Rightarrow>
               \<lparr>r_outcome = EvaluationError v, r_error = error, r_L1 = L1,
                r_calls = ss_calls ss, r_checks = ss_checks ss, r_table = ss_table ss\<rparr>
           | Finished \<Rightarrow>
               \<lparr>r_outcome = Returned (ss_I1 ss),
                r_error = (case error of None \<Rightarrow> None | Some _ \<Rightarrow> Some (ss_err ss)),
                r_L1 = (case L1 of None \<Rightarrow> None | Some _ \<Rightarrow> Some (ss_L1_I1 ss)),
                r_calls = ss_calls ss, r_checks = ss_checks ss, r_table = ss_table ss\<rparr>)"
    by (rule integrate_SomeE)
  have "r_table res = ss_table ss" using res by (cases exit) simp_all
  with refine_loop_extends [OF loop] show ?thesis by simp
qed


lemma extends_engine: "extends s s' \<Longrightarrow> engine s \<Longrightarrow> engine s'"
  by (induction rule: extends.induct) (auto intro: engine.extended)

text \<open>A call of \<^verbatim>\<open>integrate\<close> leaves a table of the same kind.\<close>

lemma engine_after_integrate:
  "engine s \<Longrightarrow> integrate s f error L1 lmc rmc = Some res \<Longrightarrow> engine (r_table res)"
  using integrate_extends extends_engine by blast

text \<open>
  C7. A call of \<^verbatim>\<open>extend_refinements\<close> that returns raises \<^verbatim>\<open>m_committed_refinements\<close> by
  one and leaves every row but that one, and the two constants, as they were; what it
  appends to that row is determined by the number of the row, \<^verbatim>\<open>m_t_max\<close> and
  \<^verbatim>\<open>m_t_crossover\<close>. The three accessors and \<^verbatim>\<open>integrate\<close> leave the rows up to
  \<^verbatim>\<open>m_committed_refinements\<close> as they were, and two calls of \<^verbatim>\<open>integrate\<close> on one table, with
  any integrands, thresholds and output pointers, end with tables that agree on every
  row that both have committed.
\<close>

theorem committed_rows_never_change:
  "(extend_refinements s = Some s1 \<longrightarrow>
      m_committed_refinements s1 = m_committed_refinements s + 1
      \<and> m_t_max s1 = m_t_max s \<and> m_t_crossover s1 = m_t_crossover s
      \<and> (\<forall>k. k \<noteq> m_committed_refinements s + 1 \<longrightarrow>
            m_abscissas s1 ! k = m_abscissas s ! k
            \<and> m_weights s1 ! k = m_weights s ! k
            \<and> m_first_complements s1 ! k = m_first_complements s ! k)
      \<and> (m_committed_refinements s + 1 < length (m_abscissas s)
          \<and> m_committed_refinements s + 1 < length (m_weights s) \<longrightarrow>
            m_abscissas s1 ! (m_committed_refinements s + 1)
              = m_abscissas s ! (m_committed_refinements s + 1)
                @ map (stored_abscissa (m_t_crossover s))
                    (level_points (m_committed_refinements s + 1) (m_t_max s))
            \<and> m_weights s1 ! (m_committed_refinements s + 1)
              = m_weights s ! (m_committed_refinements s + 1)
                @ map weight_at_t (level_points (m_committed_refinements s + 1) (m_t_max s))
            \<and> m_first_complements s1 ! (m_committed_refinements s + 1)
              = length (filter (\<lambda>pos. pos < m_t_crossover s)
                          (level_points (m_committed_refinements s + 1) (m_t_max s)))))
   \<and> (get_abscissa_row n s = Some (ra, s2) \<longrightarrow> same_rows (m_committed_refinements s) s s2)
   \<and> (get_weight_row n s = Some (rw, s3) \<longrightarrow> same_rows (m_committed_refinements s) s s3)
   \<and> (get_first_complement_index n s = Some (rc, s4) \<longrightarrow>
         same_rows (m_committed_refinements s) s s4)
   \<and> (integrate s f error L1 lmc rmc = Some res \<longrightarrow>
         same_rows (m_committed_refinements s) s (r_table res)
         \<and> (\<forall>g error' L1' lmc' rmc' res'.
               integrate s g error' L1' lmc' rmc' = Some res' \<longrightarrow>
               same_rows (min (m_committed_refinements (r_table res))
                              (m_committed_refinements (r_table res')))
                 (r_table res) (r_table res')))"
proof -
  have a: "m_committed_refinements s1 = m_committed_refinements s + 1
      \<and> m_t_max s1 = m_t_max s \<and> m_t_crossover s1 = m_t_crossover s
      \<and> (\<forall>k. k \<noteq> m_committed_refinements s + 1 \<longrightarrow>
            m_abscissas s1 ! k = m_abscissas s ! k
            \<and> m_weights s1 ! k = m_weights s ! k
            \<and> m_first_complements s1 ! k = m_first_complements s ! k)
      \<and> (m_committed_refinements s + 1 < length (m_abscissas s)
          \<and> m_committed_refinements s + 1 < length (m_weights s) \<longrightarrow>
            m_abscissas s1 ! (m_committed_refinements s + 1)
              = m_abscissas s ! (m_committed_refinements s + 1)
                @ map (stored_abscissa (m_t_crossover s))
                    (level_points (m_committed_refinements s + 1) (m_t_max s))
            \<and> m_weights s1 ! (m_committed_refinements s + 1)
              = m_weights s ! (m_committed_refinements s + 1)
                @ map weight_at_t (level_points (m_committed_refinements s + 1) (m_t_max s))
            \<and> m_first_complements s1 ! (m_committed_refinements s + 1)
              = length (filter (\<lambda>pos. pos < m_t_crossover s)
                          (level_points (m_committed_refinements s + 1) (m_t_max s))))"
    if ext: "extend_refinements s = Some s1"
  proof -
    have fr: "m_committed_refinements s1 = m_committed_refinements s + 1"
      "m_t_max s1 = m_t_max s" "m_t_crossover s1 = m_t_crossover s"
      using ext by (rule extend_refinements_frame)+
    have other: "\<forall>k. k \<noteq> m_committed_refinements s + 1 \<longrightarrow>
            m_abscissas s1 ! k = m_abscissas s ! k
            \<and> m_weights s1 ! k = m_weights s ! k
            \<and> m_first_complements s1 ! k = m_first_complements s ! k"
      using extend_refinements_other [OF ext] by blast
    have fc: "m_committed_refinements s + 1 < length (m_first_complements s)"
      using ext by (rule extend_refinements_SomeE)
    have app: "m_abscissas s1 ! (m_committed_refinements s + 1)
              = m_abscissas s ! (m_committed_refinements s + 1)
                @ map (stored_abscissa (m_t_crossover s))
                    (level_points (m_committed_refinements s + 1) (m_t_max s))
            \<and> m_weights s1 ! (m_committed_refinements s + 1)
              = m_weights s ! (m_committed_refinements s + 1)
                @ map weight_at_t (level_points (m_committed_refinements s + 1) (m_t_max s))
            \<and> m_first_complements s1 ! (m_committed_refinements s + 1)
              = length (filter (\<lambda>pos. pos < m_t_crossover s)
                          (level_points (m_committed_refinements s + 1) (m_t_max s)))"
      if r: "m_committed_refinements s + 1 < length (m_abscissas s)"
            "m_committed_refinements s + 1 < length (m_weights s)"
      using ext extend_refinements_eq [OF r(1) fc r(2)] r fc by auto
    from fr other app show ?thesis by blast
  qed
  have b: "same_rows (m_committed_refinements s) s s2"
    if "get_abscissa_row n s = Some (ra, s2)"
    using extends_same_rows [OF get_abscissa_row_extends [OF that]] by simp
  have c: "same_rows (m_committed_refinements s) s s3"
    if "get_weight_row n s = Some (rw, s3)"
    using extends_same_rows [OF get_weight_row_extends [OF that]] by simp
  have d: "same_rows (m_committed_refinements s) s s4"
    if "get_first_complement_index n s = Some (rc, s4)"
    using extends_same_rows [OF get_first_complement_index_extends [OF that]] by simp
  have e: "same_rows (m_committed_refinements s) s (r_table res)"
    if "integrate s f error L1 lmc rmc = Some res"
    using extends_same_rows [OF integrate_extends [OF that]] by simp
  have g: "same_rows (min (m_committed_refinements (r_table res))
                              (m_committed_refinements (r_table res')))
                 (r_table res) (r_table res')"
    if r1: "integrate s f error L1 lmc rmc = Some res"
      and r2: "integrate s g error' L1' lmc' rmc' = Some res'"
    for g error' L1' lmc' rmc' res'
  proof -
    from extends_linear [OF integrate_extends [OF r1] integrate_extends [OF r2]]
    show ?thesis
    proof
      assume "extends (r_table res) (r_table res')"
      from extends_same_rows [OF this] show ?thesis
        by (auto intro: same_rows_mono)
    next
      assume "extends (r_table res') (r_table res)"
      from extends_same_rows [OF this]
      have "same_rows (min (m_committed_refinements (r_table res))
                              (m_committed_refinements (r_table res')))
                 (r_table res') (r_table res)"
        by (auto intro: same_rows_mono)
      then show ?thesis by (rule same_rows_sym)
    qed
  qed
  from a b c d e g show ?thesis by blast
qed


definition extended_engine :: tanh_sinh_detail where
  "extended_engine = the (extend_refinements example_engine)"

lemma extended_engine: "extend_refinements example_engine = Some extended_engine"
  unfolding example_engine_std
  using extend_refinements_std [of 4 15 "1 / 1000000"]
  by (simp add: extended_engine_def example_engine_std)

lemma extended_engine_std: "extended_engine = std_table (1 / 1000000) 15 5 5"
  using extended_engine unfolding example_engine_std
  using extend_refinements_std [of 4 15 "1 / 1000000"] by simp

theorem committed_rows_never_change_witness:
  "extend_refinements example_engine = Some extended_engine
   \<and> m_committed_refinements extended_engine = m_committed_refinements example_engine + 1
   \<and> get_abscissa_row 5 example_engine = Some (m_abscissas extended_engine ! 5, extended_engine)
   \<and> get_weight_row 5 example_engine = Some (m_weights extended_engine ! 5, extended_engine)
   \<and> get_first_complement_index 5 example_engine
        = Some (m_first_complements extended_engine ! 5, extended_engine)
   \<and> same_rows (m_committed_refinements example_engine) example_engine extended_engine
   \<and> integrate example_engine constant_one (Some (Finite 0)) (Some (Finite 0))
        (1 / 1000) (1 / 1000) = Some one_result
   \<and> integrate example_engine always_nan (Some (Finite 0)) (Some (Finite 0))
        (1 / 1000) (1 / 1000) = Some nan_result
   \<and> same_rows (m_committed_refinements example_engine) example_engine (r_table one_result)
   \<and> same_rows (min (m_committed_refinements (r_table one_result))
                     (m_committed_refinements (r_table nan_result)))
        (r_table one_result) (r_table nan_result)"
proof -
  have c: "m_committed_refinements example_engine < 5"
    "5 \<le> m_committed_refinements extended_engine"
    unfolding example_engine_std extended_engine_std by (simp_all add: std_table_sel)
  have len: "5 < length (m_abscissas extended_engine)" "5 < length (m_weights extended_engine)"
    "5 < length (m_first_complements extended_engine)"
    unfolding extended_engine_std by (simp_all add: std_table_sel std_table_lengths)
  have ga: "get_abscissa_row 5 example_engine
            = Some (m_abscissas extended_engine ! 5, extended_engine)"
    unfolding get_abscissa_row_def using c len
    by (simp add: extended_engine boost_assert_def vec_at_def)
  have gw: "get_weight_row 5 example_engine
            = Some (m_weights extended_engine ! 5, extended_engine)"
    unfolding get_weight_row_def using c len
    by (simp add: extended_engine boost_assert_def vec_at_def)
  have gf: "get_first_complement_index 5 example_engine
            = Some (m_first_complements extended_engine ! 5, extended_engine)"
    unfolding get_first_complement_index_def using c len
    by (simp add: extended_engine boost_assert_def vec_at_def)
  from committed_rows_never_change
         [of example_engine extended_engine 5 "m_abscissas extended_engine ! 5" extended_engine
             "m_weights extended_engine ! 5" extended_engine
             "m_first_complements extended_engine ! 5" extended_engine
             constant_one "Some (Finite 0)" "Some (Finite 0)" "1 / 1000" "1 / 1000" one_result]
    extended_engine ga gw gf one_result nan_result
  show ?thesis by blast
qed

section \<open>Row 0 of the constructor\<close>

text \<open>
  C4 does not hold of row 0 as \<^verbatim>\<open>init(mpl::int_<0>)\<close> builds it. The entry at index 1 is
  the first one in complement form, yet the first complement index that is stored is 0:
  the test \<^verbatim>\<open>first_complement < 0\<close> on a \<^verbatim>\<open>std::size_t\<close> never holds. The entries at the
  indices 1, ..., 6 are negative, and the last entry, which the constructor stores
  without the sign, is not.
\<close>

theorem first_row_not_in_row_form:
  "init0 (1 / 1000000) 15 4 = Some example_engine
   \<and> m_first_complements example_engine ! 0 = 0
   \<and> 0 \<le> m_abscissas example_engine ! 0 ! 0
   \<and> m_abscissas example_engine ! 0 ! 1 < 0
   \<and> m_abscissas example_engine ! 0 ! 6 < 0
   \<and> 0 < m_abscissas example_engine ! 0 ! 7
   \<and> length (m_abscissas example_engine ! 0) = 8"
proof -
  have r: "m_abscissas example_engine ! 0 = std_abscissas 4 0"
    and f: "m_first_complements example_engine ! 0 = std_first_complement 4 0"
    unfolding example_engine_std by (simp_all add: std_table_def del: upt_Suc)
  show ?thesis
    unfolding r f using complement_pos [of 1] complement_pos [of 6] complement_pos [of 7]
    by (simp add: example_engine_init std_row0 std_first_complement_def)
qed

text \<open>
  The rows of the later levels do have the form: in a row \<open>k \<ge> 1\<close> that is committed, the
  entries before the first complement index are not negative and the entries from it on
  are negative.
\<close>

lemma later_rows_in_row_form:
  assumes "engine s" "1 \<le> k" "k \<le> m_committed_refinements s" "j < length (m_abscissas s ! k)"
  shows "j < m_first_complements s ! k \<longleftrightarrow> 0 \<le> m_abscissas s ! k ! j"
proof -
  from assms(1) obtain tol m c where s: "s = std_table tol m c c" and cm: "c \<le> m"
    using engine_std by blast
  have kc: "k \<le> c" using assms(3) unfolding s by (simp add: std_table_sel)
  then have km: "k \<le> m" using cm by simp
  have a: "m_abscissas s ! k = map (stored_abscissa t_cross) (level_points k 7)"
    and f: "m_first_complements s ! k = length (filter (\<lambda>q. q < t_cross) (level_points k 7))"
    using std_table_rows(1,3) [OF km, of tol c c] std_rows_level(1,3) [OF assms(2) kc] km
    unfolding s by (simp_all add: vec_at_def std_table_lengths split: if_splits)
  have j: "j < 7 * 2 ^ (k - 1)"
    using assms(4) unfolding a length_map length_level_points [OF assms(2)] .
  define pos where "pos = level_points k 7 ! j"
  have "pos = real (2 * j + 1) / 2 ^ k" unfolding pos_def using assms(2) j by (rule nth_level_points)
  then have pos0: "0 \<le> pos" by simp
  have nth: "m_abscissas s ! k ! j = stored_abscissa t_cross pos"
    unfolding a pos_def using j length_level_points [OF assms(2)] by simp
  have iff: "j < m_first_complements s ! k \<longleftrightarrow> pos < t_cross"
    unfolding f pos_def by (rule level_below_crossover_iff [OF assms(2) j])
  show ?thesis
  proof (cases "pos < t_cross")
    case True
    then show ?thesis unfolding iff nth using abscissa_nonneg [OF pos0]
      by (simp add: stored_abscissa_direct)
  next
    case False
    then show ?thesis unfolding iff nth using complement_pos [of pos]
      by (simp add: stored_abscissa_def)
  qed
qed

end
